theory Spec2Isabelle
  imports Complex_Main "HOL-Library.AList"
begin

section \<open>Numbers, outcomes and array helpers\<close>

text \<open>
  The screener computes on JavaScript numbers, that is on IEEE 754 doubles. Two models
  are given.
  \<^item> The exact model reads a finite double as the real it denotes and does not round. It
    is used for what rounding does not change: which call raises, how many values a call
    returns, comparisons of given numbers, and the counting and scheduling around them.
    In it a function whose result would hold \<open>NaN\<close> because a period is \<open>0\<close> (the source
    divides \<open>0 / 0\<close>) or because it subtracts from an out-of-range array read
    (\<open>undefined - x\<close>) returns \<open>Inl NotANumber\<close>: the source does not throw there, but its
    values are no numbers. A quotient whose divisor is a data value that may be \<open>0\<close> is a
    \<open>quotient\<close> (see the scorer), with the infinities and \<open>NaN\<close> of the source.
  \<^item> The double-precision model rounds every operation as the source does, with overflow
    to the infinities and with \<open>NaN\<close>. It is given for \<open>calculateRSI\<close> and
    \<open>calculateBollingerBands\<close>, and every statement about the values they return is made
    in it.
  \<open>Inl InsufficientData\<close> is the source's \<open>throw new Error('Not enough data ...')\<close>.
  Periods and lengths are natural numbers.
\<close>

datatype failure = InsufficientData | NotANumber

text \<open>\<open>xs.slice(a, b)\<close> for \<open>0 \<le> a\<close>: the end is clipped to the length.\<close>

definition slice :: "'a list \<Rightarrow> nat \<Rightarrow> nat \<Rightarrow> 'a list" where
  "slice xs a b = take (b - a) (drop a xs)"

text \<open>\<open>xs.reduce((a, b) => a + b, 0)\<close>.\<close>

definition reduce_add :: "real list \<Rightarrow> real" where
  "reduce_add xs = foldl (\<lambda>a b. a + b) 0 xs"

text \<open>\<open>xs[i]\<close> for an integer index: \<open>None\<close> is the source's \<open>undefined\<close>.\<close>

definition js_get :: "'a list \<Rightarrow> int \<Rightarrow> 'a option" where
  "js_get xs i = (if 0 \<le> i \<and> i < int (length xs) then Some (xs ! nat i) else None)"

section \<open>Indicator engine (scripts/lib/indicators.js)\<close>

subsection \<open>calculateRSI\<close>

definition price_changes :: "real list \<Rightarrow> real list" where
  "price_changes closes = map (\<lambda>i. closes ! i - closes ! (i - 1)) [1..<length closes]"

definition gains_of :: "real list \<Rightarrow> real list" where
  "gains_of changes = map (\<lambda>c. if c > 0 then c else 0) changes"

definition losses_of :: "real list \<Rightarrow> real list" where
  "losses_of changes = map (\<lambda>c. if c < 0 then \<bar>c\<bar> else 0) changes"

text \<open>The value pushed for one pair of averages (the same four lines occur twice).\<close>

definition rsi_value :: "real \<Rightarrow> real \<Rightarrow> real" where
  "rsi_value avgGain avgLoss =
     (if avgLoss = 0 then 100
      else (let rs = avgGain / avgLoss in 100 - (100 / (1 + rs))))"

text \<open>
  The smoothing loop \<open>for (i = period; i < changes.length; i++)\<close>, run over the pairs
  \<open>(gains[i], losses[i])\<close> that are left from index \<open>period\<close> on.
\<close>

fun rsi_loop :: "nat \<Rightarrow> real \<Rightarrow> real \<Rightarrow> (real \<times> real) list \<Rightarrow> real list" where
  "rsi_loop period avgGain avgLoss [] = []"
| "rsi_loop period avgGain avgLoss ((g, l) # rest) =
     (let avgGain' = (avgGain * (real period - 1) + g) / real period;
          avgLoss' = (avgLoss * (real period - 1) + l) / real period
      in rsi_value avgGain' avgLoss' # rsi_loop period avgGain' avgLoss' rest)"

definition calculateRSI :: "real list \<Rightarrow> nat \<Rightarrow> failure + real list" where
  "calculateRSI closes period =
     (if length closes < period + 1 then Inl InsufficientData
      else if period = 0 then Inl NotANumber
      else
        (let changes = price_changes closes;
             gains = gains_of changes;
             losses = losses_of changes;
             avgGain = reduce_add (slice gains 0 period) / real period;
             avgLoss = reduce_add (slice losses 0 period) / real period
         in Inr (rsi_value avgGain avgLoss #
                 rsi_loop period avgGain avgLoss (zip (drop period gains) (drop period losses)))))"

subsection \<open>calculateSMA and calculateEMA\<close>

definition calculateSMA :: "real list \<Rightarrow> nat \<Rightarrow> failure + real list" where
  "calculateSMA prices period =
     (if length prices < period then Inl InsufficientData
      else if period = 0 then Inl NotANumber
      else Inr (map (\<lambda>i. reduce_add (slice prices (i + 1 - period) (i + 1)) / real period)
                  [period - 1..<length prices]))"

text \<open>
  The loop of \<open>calculateEMA\<close> over \<open>prices[period..]\<close>; \<open>prev\<close> is
  \<open>emaValues[emaValues.length - 1]\<close>.
\<close>

fun ema_loop :: "real \<Rightarrow> real \<Rightarrow> real list \<Rightarrow> real list" where
  "ema_loop multiplier prev [] = []"
| "ema_loop multiplier prev (p # ps) =
     (let ema = (p - prev) * multiplier + prev in ema # ema_loop multiplier ema ps)"

definition calculateEMA :: "real list \<Rightarrow> nat \<Rightarrow> failure + real list" where
  "calculateEMA prices period =
     (if length prices < period then Inl InsufficientData
      else if period = 0 then Inl NotANumber
      else
        (let multiplier = 2 / (real period + 1);
             firstSMA = reduce_add (slice prices 0 period) / real period
         in Inr (firstSMA # ema_loop multiplier firstSMA (drop period prices))))"

subsection \<open>calculateMACD\<close>

record macd_data =
  macdLine :: "real list"
  signalLine :: "real list"
  histogram :: "real list"

text \<open>
  \<open>macdLine[i] = fastEMA[i + offset] - slowEMA[i]\<close> for every index of \<open>slowEMA\<close>. The
  offset \<open>slow - fast\<close> is negative when \<open>slow < fast\<close>: the read is then out of range
  and the difference is no number (\<open>None\<close>).
\<close>

definition macd_line :: "real list \<Rightarrow> real list \<Rightarrow> int \<Rightarrow> real list option" where
  "macd_line fastEMA slowEMA offset =
     those (map (\<lambda>i. map_option (\<lambda>f. f - slowEMA ! i) (js_get fastEMA (int i + offset)))
              [0..<length slowEMA])"

definition macd_histogram :: "real list \<Rightarrow> real list \<Rightarrow> real list" where
  "macd_histogram macdLine' signalLine' =
     (let signalOffset = length macdLine' - length signalLine'
      in map (\<lambda>i. macdLine' ! (i + signalOffset) - signalLine' ! i) [0..<length signalLine'])"

definition calculateMACD :: "real list \<Rightarrow> nat \<Rightarrow> nat \<Rightarrow> nat \<Rightarrow> failure + macd_data" where
  "calculateMACD closes fast slow signal =
     (if length closes < slow + signal then Inl InsufficientData
      else
        (case calculateEMA closes fast of
           Inl e \<Rightarrow> Inl e
         | Inr fastEMA \<Rightarrow>
            (case calculateEMA closes slow of
               Inl e \<Rightarrow> Inl e
             | Inr slowEMA \<Rightarrow>
                (case macd_line fastEMA slowEMA (int slow - int fast) of
                   None \<Rightarrow> Inl NotANumber
                 | Some ml \<Rightarrow>
                    (case calculateEMA ml signal of
                       Inl e \<Rightarrow> Inl e
                     | Inr sl \<Rightarrow>
                        Inr \<lparr>macdLine = ml, signalLine = sl,
                             histogram = macd_histogram ml sl\<rparr>)))))"

subsection \<open>calculateBollingerBands\<close>

record 'a bands =
  upper :: 'a
  middle :: 'a
  lower :: 'a

text \<open>The body of the loop over the indices of \<open>middle\<close>: the pair (upper, lower).\<close>

definition band_at :: "real list \<Rightarrow> nat \<Rightarrow> real \<Rightarrow> real list \<Rightarrow> nat \<Rightarrow> real \<times> real" where
  "band_at prices period stdDev middle' i =
     (let window = slice prices i (i + period);
          mean = middle' ! i;
          squaredDiffs = map (\<lambda>p. (p - mean) ^ 2) window;
          variance = reduce_add squaredDiffs / real period;
          stdDeviation = sqrt variance
      in (mean + stdDev * stdDeviation, mean - stdDev * stdDeviation))"

definition calculateBollingerBands ::
  "real list \<Rightarrow> nat \<Rightarrow> real \<Rightarrow> failure + real list bands" where
  "calculateBollingerBands prices period stdDev =
     (if length prices < period then Inl InsufficientData
      else
        (case calculateSMA prices period of
           Inl e \<Rightarrow> Inl e
         | Inr middle' \<Rightarrow>
            (let both = map (band_at prices period stdDev middle') [0..<length middle']
             in Inr \<lparr>upper = map fst both, middle = middle', lower = map snd both\<rparr>)))"

subsection \<open>Cross detectors\<close>

definition isGoldenCross :: "real list \<Rightarrow> real list \<Rightarrow> bool" where
  "isGoldenCross maFast maSlow =
     (if length maFast < 2 \<or> length maSlow < 2 then False
      else
        (let fastPrev = maFast ! (length maFast - 2);
             fastCurr = maFast ! (length maFast - 1);
             slowPrev = maSlow ! (length maSlow - 2);
             slowCurr = maSlow ! (length maSlow - 1)
         in fastPrev \<le> slowPrev \<and> fastCurr > slowCurr))"

definition isDeathCross :: "real list \<Rightarrow> real list \<Rightarrow> bool" where
  "isDeathCross maFast maSlow =
     (if length maFast < 2 \<or> length maSlow < 2 then False
      else
        (let fastPrev = maFast ! (length maFast - 2);
             fastCurr = maFast ! (length maFast - 1);
             slowPrev = maSlow ! (length maSlow - 2);
             slowCurr = maSlow ! (length maSlow - 1)
         in fastPrev \<ge> slowPrev \<and> fastCurr < slowCurr))"

definition isMACDBullishCross :: "real list \<Rightarrow> bool" where
  "isMACDBullishCross hist =
     (if length hist < 2 then False
      else
        (let prev = hist ! (length hist - 2);
             curr = hist ! (length hist - 1)
         in prev < 0 \<and> curr > 0))"

definition isMACDBearishCross :: "real list \<Rightarrow> bool" where
  "isMACDBearishCross hist =
     (if length hist < 2 then False
      else
        (let prev = hist ! (length hist - 2);
             curr = hist ! (length hist - 1)
         in prev > 0 \<and> curr < 0))"

subsection \<open>getLatestIndicators\<close>

record macd_latest =
  macd_value :: real
  macd_signal :: real
  macd_histogram_latest :: real

record cross_flags =
  goldenCross :: bool
  deathCross :: bool
  macdBullish :: bool
  macdBearish :: bool

record indicators =
  rsi :: real
  macd :: macd_latest
  ma20 :: real
  ma50 :: real
  bollinger :: "real bands"
  price :: real
  crosses :: cross_flags

text \<open>
  \<open>xs[xs.length - 1]\<close> is \<open>last xs\<close>: every array read this way is non-empty once
  the five computations have returned. The arguments \<open>highs\<close> and \<open>lows\<close> are
  parameters of the source function and are kept.
\<close>

definition getLatestIndicators ::
  "real list \<Rightarrow> real list \<Rightarrow> real list \<Rightarrow> failure + indicators" where
  "getLatestIndicators closes highs lows =
     (case calculateRSI closes 14 of
        Inl e \<Rightarrow> Inl e
      | Inr rsiValues \<Rightarrow>
     (case calculateMACD closes 12 26 9 of
        Inl e \<Rightarrow> Inl e
      | Inr macdData \<Rightarrow>
     (case calculateSMA closes 20 of
        Inl e \<Rightarrow> Inl e
      | Inr ma20' \<Rightarrow>
     (case calculateSMA closes 50 of
        Inl e \<Rightarrow> Inl e
      | Inr ma50' \<Rightarrow>
     (case calculateBollingerBands closes 20 2 of
        Inl e \<Rightarrow> Inl e
      | Inr bbData \<Rightarrow>
         (let currentPrice = last closes
          in Inr \<lparr>rsi = last rsiValues,
                  macd = \<lparr>macd_value = last (macdLine macdData),
                          macd_signal = last (signalLine macdData),
                          macd_histogram_latest = last (histogram macdData)\<rparr>,
                  ma20 = last ma20',
                  ma50 = last ma50',
                  bollinger = \<lparr>upper = last (upper bbData),
                               middle = last (middle bbData),
                               lower = last (lower bbData)\<rparr>,
                  price = currentPrice,
                  crosses = \<lparr>goldenCross = isGoldenCross ma20' ma50',
                             deathCross = isDeathCross ma20' ma50',
                             macdBullish = isMACDBullishCross (histogram macdData),
                             macdBearish = isMACDBearishCross (histogram macdData)\<rparr>\<rparr>))))))"

section \<open>Double-precision model of calculateRSI and calculateBollingerBands\<close>

text \<open>
  The values these two functions return depend on how every operation rounds, so they are
  modelled a second time on IEEE 754 binary64 numbers ("doubles"), the numbers of the
  source. The exact model above decides what does not depend on rounding (which call
  raises, how many values come back); this model decides the values.
\<close>

subsection \<open>Doubles and rounding\<close>

text \<open>
  A double is a finite number, an infinity or \<open>NaN\<close>. The two zeros are not told apart:
  the functions modelled here divide by a period, by an average that has been compared
  with zero, or by a number that is at least 1, and they compare and add zeros, none of
  which depends on the sign of a zero.
\<close>

datatype double = Num real | PInf | NInf | Nan

text \<open>Rounding to the nearest integer, a tie going to the even one.\<close>

definition round_half_even :: "real \<Rightarrow> int" where
  "round_half_even y =
     (let f = \<lfloor>y\<rfloor>; d = y - real_of_int f
      in if d < 1 / 2 then f else if d > 1 / 2 then f + 1 else if even f then f else f + 1)"

text \<open>
  The exponent of the binade of \<open>x\<close>: \<open>\<lfloor>log 2 \<bar>x\<bar>\<rfloor>\<close>, and \<open>-1022\<close> for the subnormal
  numbers, which share the spacing of the smallest normal binade.
\<close>

definition binade :: "real \<Rightarrow> int" where
  "binade x = max (- 1022) \<lfloor>log 2 \<bar>x\<bar>\<rfloor>"

text \<open>
  \<open>fl x\<close> is the double nearest to the real \<open>x\<close> (round to nearest, ties to even): \<open>x\<close> is
  rounded to a multiple of \<open>2 ^ (e - 52)\<close> for the exponent \<open>e\<close> of its binade, and a result of
  magnitude \<open>2 ^ 1024\<close> or more overflows to an infinity.
\<close>

definition fl :: "real \<Rightarrow> double" where
  "fl x =
     (if x = 0 then Num 0
      else
        (let q = 2 powr real_of_int (binade x - 52);
             r = q * real_of_int (round_half_even (x / q))
         in if \<bar>r\<bar> \<ge> 2 ^ 1024 then (if x > 0 then PInf else NInf) else Num r))"

subsection \<open>Arithmetic and comparisons of the source\<close>

text \<open>
  \<open>+\<close>, \<open>-\<close>, \<open>*\<close>, \<open>/\<close>, \<open>Math.sqrt\<close> and \<open>Math.abs\<close> on doubles: the exact result is
  rounded once; \<open>NaN\<close> propagates; \<open>\<infinity> - \<infinity>\<close>, \<open>0 * \<infinity>\<close>, \<open>0 / 0\<close> and \<open>\<infinity> / \<infinity>\<close> are \<open>NaN\<close>.
\<close>

fun fneg :: "double \<Rightarrow> double" where
  "fneg (Num a) = Num (- a)"
| "fneg PInf = NInf"
| "fneg NInf = PInf"
| "fneg Nan = Nan"

fun fadd :: "double \<Rightarrow> double \<Rightarrow> double" where
  "fadd (Num a) (Num b) = fl (a + b)"
| "fadd Nan y = Nan"
| "fadd x Nan = Nan"
| "fadd PInf NInf = Nan"
| "fadd NInf PInf = Nan"
| "fadd PInf y = PInf"
| "fadd x PInf = PInf"
| "fadd NInf y = NInf"
| "fadd x NInf = NInf"

definition fsub :: "double \<Rightarrow> double \<Rightarrow> double" where
  "fsub x y = fadd x (fneg y)"

fun fmul :: "double \<Rightarrow> double \<Rightarrow> double" where
  "fmul (Num a) (Num b) = fl (a * b)"
| "fmul Nan y = Nan"
| "fmul x Nan = Nan"
| "fmul PInf (Num b) = (if b = 0 then Nan else if b > 0 then PInf else NInf)"
| "fmul NInf (Num b) = (if b = 0 then Nan else if b > 0 then NInf else PInf)"
| "fmul (Num a) PInf = (if a = 0 then Nan else if a > 0 then PInf else NInf)"
| "fmul (Num a) NInf = (if a = 0 then Nan else if a > 0 then NInf else PInf)"
| "fmul PInf PInf = PInf"
| "fmul PInf NInf = NInf"
| "fmul NInf PInf = NInf"
| "fmul NInf NInf = PInf"

fun fdiv :: "double \<Rightarrow> double \<Rightarrow> double" where
  "fdiv (Num a) (Num b) =
     (if b = 0 then (if a = 0 then Nan else if a > 0 then PInf else NInf) else fl (a / b))"
| "fdiv Nan y = Nan"
| "fdiv x Nan = Nan"
| "fdiv (Num a) PInf = Num 0"
| "fdiv (Num a) NInf = Num 0"
| "fdiv PInf (Num b) = (if b \<ge> 0 then PInf else NInf)"
| "fdiv NInf (Num b) = (if b \<ge> 0 then NInf else PInf)"
| "fdiv PInf PInf = Nan"
| "fdiv PInf NInf = Nan"
| "fdiv NInf PInf = Nan"
| "fdiv NInf NInf = Nan"

fun fsqrt :: "double \<Rightarrow> double" where
  "fsqrt (Num a) = (if a < 0 then Nan else fl (sqrt a))"
| "fsqrt PInf = PInf"
| "fsqrt NInf = Nan"
| "fsqrt Nan = Nan"

fun fabs :: "double \<Rightarrow> double" where
  "fabs (Num a) = Num \<bar>a\<bar>"
| "fabs PInf = PInf"
| "fabs NInf = PInf"
| "fabs Nan = Nan"

text \<open>\<open><\<close>, \<open>>\<close>, \<open><=\<close> and \<open>===\<close>: every comparison with \<open>NaN\<close> is false.\<close>

fun flt :: "double \<Rightarrow> double \<Rightarrow> bool" where
  "flt (Num a) (Num b) = (a < b)"
| "flt Nan y = False"
| "flt x Nan = False"
| "flt NInf NInf = False"
| "flt NInf y = True"
| "flt PInf y = False"
| "flt (Num a) PInf = True"
| "flt (Num a) NInf = False"

definition fgt :: "double \<Rightarrow> double \<Rightarrow> bool" where
  "fgt x y = flt y x"

fun fle :: "double \<Rightarrow> double \<Rightarrow> bool" where
  "fle (Num a) (Num b) = (a \<le> b)"
| "fle Nan y = False"
| "fle x Nan = False"
| "fle NInf y = True"
| "fle x PInf = True"
| "fle PInf y = False"
| "fle (Num a) NInf = False"

fun feq :: "double \<Rightarrow> double \<Rightarrow> bool" where
  "feq (Num a) (Num b) = (a = b)"
| "feq PInf PInf = True"
| "feq NInf NInf = True"
| "feq x y = False"

text \<open>\<open>xs.reduce((a, b) => a + b, 0)\<close> on doubles: a left fold, rounding after every addition.\<close>

definition reduce_fadd :: "double list \<Rightarrow> double" where
  "reduce_fadd xs = foldl (\<lambda>a b. fadd a b) (Num 0) xs"

subsection \<open>calculateRSI on doubles\<close>

text \<open>
  The same statements as in \<open>calculateRSI\<close>, every operation on doubles. A period of
  \<open>0\<close> needs no case of its own here: \<open>0 / 0\<close> is \<open>NaN\<close>.
\<close>

definition price_changes_ieee :: "double list \<Rightarrow> double list" where
  "price_changes_ieee closes = map (\<lambda>i. fsub (closes ! i) (closes ! (i - 1))) [1..<length closes]"

definition gains_ieee :: "double list \<Rightarrow> double list" where
  "gains_ieee changes = map (\<lambda>c. if fgt c (Num 0) then c else Num 0) changes"

definition losses_ieee :: "double list \<Rightarrow> double list" where
  "losses_ieee changes = map (\<lambda>c. if flt c (Num 0) then fabs c else Num 0) changes"

definition rsi_value_ieee :: "double \<Rightarrow> double \<Rightarrow> double" where
  "rsi_value_ieee avgGain avgLoss =
     (if feq avgLoss (Num 0) then Num 100
      else (let rs = fdiv avgGain avgLoss
            in fsub (Num 100) (fdiv (Num 100) (fadd (Num 1) rs))))"

fun rsi_loop_ieee :: "nat \<Rightarrow> double \<Rightarrow> double \<Rightarrow> (double \<times> double) list \<Rightarrow> double list" where
  "rsi_loop_ieee period avgGain avgLoss [] = []"
| "rsi_loop_ieee period avgGain avgLoss ((g, l) # rest) =
     (let avgGain' = fdiv (fadd (fmul avgGain (fsub (Num (real period)) (Num 1))) g)
                          (Num (real period));
          avgLoss' = fdiv (fadd (fmul avgLoss (fsub (Num (real period)) (Num 1))) l)
                          (Num (real period))
      in rsi_value_ieee avgGain' avgLoss' # rsi_loop_ieee period avgGain' avgLoss' rest)"

definition calculateRSI_ieee :: "double list \<Rightarrow> nat \<Rightarrow> failure + double list" where
  "calculateRSI_ieee closes period =
     (if length closes < period + 1 then Inl InsufficientData
      else
        (let changes = price_changes_ieee closes;
             gains = gains_ieee changes;
             losses = losses_ieee changes;
             avgGain = fdiv (reduce_fadd (slice gains 0 period)) (Num (real period));
             avgLoss = fdiv (reduce_fadd (slice losses 0 period)) (Num (real period))
         in Inr (rsi_value_ieee avgGain avgLoss #
                 rsi_loop_ieee period avgGain avgLoss
                   (zip (drop period gains) (drop period losses)))))"

subsection \<open>calculateSMA and calculateBollingerBands on doubles\<close>

text \<open>
  The loop of \<open>calculateSMA\<close> starts at \<open>i = period - 1\<close>, which is \<open>-1\<close> for a period of
  \<open>0\<close>: the index is an integer. \<open>Math.pow(d, 2)\<close> is the rounded product \<open>d * d\<close>.
\<close>

definition calculateSMA_ieee :: "double list \<Rightarrow> nat \<Rightarrow> failure + double list" where
  "calculateSMA_ieee prices period =
     (if length prices < period then Inl InsufficientData
      else Inr (map (\<lambda>i. fdiv (reduce_fadd (slice prices (nat (i - int period + 1)) (nat (i + 1))))
                             (Num (real period)))
                  [int period - 1..int (length prices) - 1]))"

definition band_at_ieee ::
  "double list \<Rightarrow> nat \<Rightarrow> double \<Rightarrow> double list \<Rightarrow> nat \<Rightarrow> double \<times> double" where
  "band_at_ieee prices period stdDev middle' i =
     (let window = slice prices i (i + period);
          mean = middle' ! i;
          squaredDiffs = map (\<lambda>p. fmul (fsub p mean) (fsub p mean)) window;
          variance = fdiv (reduce_fadd squaredDiffs) (Num (real period));
          stdDeviation = fsqrt variance
      in (fadd mean (fmul stdDev stdDeviation), fsub mean (fmul stdDev stdDeviation)))"

definition calculateBollingerBands_ieee ::
  "double list \<Rightarrow> nat \<Rightarrow> double \<Rightarrow> failure + double list bands" where
  "calculateBollingerBands_ieee prices period stdDev =
     (if length prices < period then Inl InsufficientData
      else
        (case calculateSMA_ieee prices period of
           Inl e \<Rightarrow> Inl e
         | Inr middle' \<Rightarrow>
            (let both = map (band_at_ieee prices period stdDev middle') [0..<length middle']
             in Inr \<lparr>upper = map fst both, middle = middle', lower = map snd both\<rparr>)))"

section \<open>Filter predicate and scorer (scripts/lib/filters.js)\<close>

subsection \<open>Quotients by a data value\<close>

text \<open>
  \<open>a / b\<close> where \<open>b\<close> is read from the snapshot and may be \<open>0\<close>: the source then yields
  \<open>Infinity\<close>, \<open>-Infinity\<close> or \<open>NaN\<close> (for \<open>0 / 0\<close>), and every comparison with \<open>NaN\<close> is
  false. A zero divisor is read as \<open>+0\<close>.
\<close>

datatype quotient = Finite real | PosInfinity | NegInfinity | NaN

definition js_div :: "real \<Rightarrow> real \<Rightarrow> quotient" where
  "js_div a b =
     (if b \<noteq> 0 then Finite (a / b)
      else if a > 0 then PosInfinity
      else if a < 0 then NegInfinity
      else NaN)"

fun js_lt :: "quotient \<Rightarrow> real \<Rightarrow> bool" where
  "js_lt (Finite x) c = (x < c)"
| "js_lt PosInfinity c = False"
| "js_lt NegInfinity c = True"
| "js_lt NaN c = False"

fun js_gt :: "quotient \<Rightarrow> real \<Rightarrow> bool" where
  "js_gt (Finite x) c = (x > c)"
| "js_gt PosInfinity c = True"
| "js_gt NegInfinity c = False"
| "js_gt NaN c = False"

subsection \<open>Filter criteria\<close>

text \<open>
  A criteria object: every key is optional (\<open>None\<close> is an absent key, that is
  \<open>undefined\<close>). \<open>between\<close> is the two-element array \<open>[min, max]\<close>.
\<close>

record rsi_filter =
  rsi_below :: "real option"
  rsi_above :: "real option"
  rsi_between :: "(real \<times> real) option"

record macd_filter =
  macd_bullish :: "bool option"
  macd_bearish :: "bool option"
  macd_histogramPositive :: "bool option"

record ma_filter =
  ma_goldenCross :: "bool option"
  ma_deathCross :: "bool option"
  ma_above :: "int option"
  ma_below :: "int option"

record bollinger_filter =
  bb_touchUpper :: "bool option"
  bb_touchLower :: "bool option"
  bb_belowLower :: "bool option"
  bb_aboveUpper :: "bool option"
  bb_narrow :: "bool option"
  bb_wide :: "bool option"

record price_filter =
  price_min :: "real option"
  price_max :: "real option"

record filters =
  f_rsi :: "rsi_filter option"
  f_macd :: "macd_filter option"
  f_ma :: "ma_filter option"
  f_bollinger :: "bollinger_filter option"
  f_price :: "price_filter option"

text \<open>The truth value of an optional boolean in a condition: \<open>undefined\<close> is falsy.\<close>

definition truthy :: "bool option \<Rightarrow> bool" where
  "truthy b = (b = Some True)"

text \<open>\<open>Object.keys(filters).length === 0\<close>.\<close>

definition no_keys :: "filters \<Rightarrow> bool" where
  "no_keys f = (f_rsi f = None \<and> f_macd f = None \<and> f_ma f = None
                 \<and> f_bollinger f = None \<and> f_price f = None)"

text \<open>
  Each block of \<open>matchesFilters\<close> is a sequence of \<open>if (c) return false\<close>; a
  \<open>_rejects\<close> predicate holds when one of the conditions of its block holds.
\<close>

definition rsi_rejects :: "indicators \<Rightarrow> rsi_filter \<Rightarrow> bool" where
  "rsi_rejects ind f =
     ((case rsi_below f of None \<Rightarrow> False | Some v \<Rightarrow> rsi ind \<ge> v)
      \<or> (case rsi_above f of None \<Rightarrow> False | Some v \<Rightarrow> rsi ind \<le> v)
      \<or> (case rsi_between f of None \<Rightarrow> False
          | Some (mn, mx) \<Rightarrow> rsi ind < mn \<or> rsi ind > mx))"

definition macd_rejects :: "indicators \<Rightarrow> macd_filter \<Rightarrow> bool" where
  "macd_rejects ind f =
     ((truthy (macd_bullish f) \<and> \<not> macdBullish (crosses ind))
      \<or> (truthy (macd_bearish f) \<and> \<not> macdBearish (crosses ind))
      \<or> (case macd_histogramPositive f of None \<Rightarrow> False
          | Some hp \<Rightarrow>
              (let isPositive = macd_histogram_latest (macd ind) > 0
               in (hp \<and> \<not> isPositive) \<or> (\<not> hp \<and> isPositive))))"

definition ma_rejects :: "indicators \<Rightarrow> ma_filter \<Rightarrow> bool" where
  "ma_rejects ind f =
     ((truthy (ma_goldenCross f) \<and> \<not> goldenCross (crosses ind))
      \<or> (truthy (ma_deathCross f) \<and> \<not> deathCross (crosses ind))
      \<or> (case ma_above f of None \<Rightarrow> False
          | Some n \<Rightarrow> (n = 20 \<and> price ind \<le> ma20 ind) \<or> (n = 50 \<and> price ind \<le> ma50 ind))
      \<or> (case ma_below f of None \<Rightarrow> False
          | Some n \<Rightarrow> (n = 20 \<and> price ind \<ge> ma20 ind) \<or> (n = 50 \<and> price ind \<ge> ma50 ind)))"

definition bollinger_rejects :: "indicators \<Rightarrow> bollinger_filter \<Rightarrow> bool" where
  "bollinger_rejects ind f =
     (let up = upper (bollinger ind); mid = middle (bollinger ind); lo = lower (bollinger ind)
      in (case bb_touchUpper f of None \<Rightarrow> False
          | Some t \<Rightarrow> (let isTouching = price ind \<ge> up * 0.995 in t \<and> \<not> isTouching))
       \<or> (case bb_touchLower f of None \<Rightarrow> False
          | Some t \<Rightarrow> (let isTouching = price ind \<le> lo * 1.005 in t \<and> \<not> isTouching))
       \<or> (case bb_belowLower f of None \<Rightarrow> False | Some t \<Rightarrow> t \<and> price ind \<ge> lo)
       \<or> (case bb_aboveUpper f of None \<Rightarrow> False | Some t \<Rightarrow> t \<and> price ind \<le> up)
       \<or> (case bb_narrow f of None \<Rightarrow> False
          | Some t \<Rightarrow> (let bandwidth = js_div (up - lo) mid in t \<and> js_gt bandwidth 0.1))
       \<or> (case bb_wide f of None \<Rightarrow> False
          | Some t \<Rightarrow> (let bandwidth = js_div (up - lo) mid in t \<and> js_lt bandwidth 0.1)))"

definition price_rejects :: "indicators \<Rightarrow> price_filter \<Rightarrow> bool" where
  "price_rejects ind f =
     ((case price_min f of None \<Rightarrow> False | Some v \<Rightarrow> price ind < v)
      \<or> (case price_max f of None \<Rightarrow> False | Some v \<Rightarrow> price ind > v))"

text \<open>The criteria argument may itself be \<open>null\<close> or \<open>undefined\<close> (\<open>None\<close>).\<close>

definition matchesFilters :: "indicators \<Rightarrow> filters option \<Rightarrow> bool" where
  "matchesFilters ind criteria =
     (case criteria of
        None \<Rightarrow> True
      | Some f \<Rightarrow>
          if no_keys f then True
          else if (case f_rsi f of None \<Rightarrow> False | Some r \<Rightarrow> rsi_rejects ind r) then False
          else if (case f_macd f of None \<Rightarrow> False | Some m \<Rightarrow> macd_rejects ind m) then False
          else if (case f_ma f of None \<Rightarrow> False | Some m \<Rightarrow> ma_rejects ind m) then False
          else if (case f_bollinger f of None \<Rightarrow> False | Some b \<Rightarrow> bollinger_rejects ind b)
            then False
          else if (case f_price f of None \<Rightarrow> False | Some p \<Rightarrow> price_rejects ind p) then False
          else True)"

subsection \<open>calculateScore\<close>

text \<open>The value of \<open>score\<close> before the final \<open>Math.min(100, Math.max(0, score))\<close>.\<close>

definition raw_score :: "indicators \<Rightarrow> real" where
  "raw_score ind =
     (let score = 50;
          score = (if rsi ind < 30 then score + (30 - rsi ind)
                   else if rsi ind > 70 then score + (rsi ind - 70)
                   else score);
          score = (if macdBullish (crosses ind) then score + 15 else score);
          score = (if goldenCross (crosses ind) then score + 15 else score);
          up = upper (bollinger ind);
          lo = lower (bollinger ind);
          bandWidth = up - lo;
          position = js_div (price ind - lo) bandWidth;
          score = (if js_lt position 0.1 then score + 10 else score);
          score = (if js_gt position 0.9 then score + 10 else score)
      in score)"

definition calculateScore :: "indicators \<Rightarrow> real" where
  "calculateScore ind = min 100 (max 0 (raw_score ind))"

section \<open>Retrieval orchestrator (scripts/lib/api.js)\<close>

text \<open>
  A candle as \<open>parseKlines\<close> reads it: the numeric strings of the exchange are taken as
  the numbers \<open>parseFloat\<close> yields.
\<close>

record kline =
  openTime :: int
  k_open :: real
  k_high :: real
  k_low :: real
  k_close :: real
  k_volume :: real
  closeTime :: int

text \<open>
  What one \<open>fetch\<close> of a klines URL does: it throws, it answers with a status that is
  not \<open>ok\<close>, or it answers with a payload. The network is a function of the number of
  requests made before and of the request.
\<close>

datatype response = NetworkError | HttpError | HttpOk "kline list"

type_synonym network = "nat \<Rightarrow> string \<Rightarrow> string \<Rightarrow> nat \<Rightarrow> response"

definition BATCH_SIZE :: nat where "BATCH_SIZE = 20"
definition BATCH_DELAY :: nat where "BATCH_DELAY = 1000"
definition REQUEST_DELAY :: nat where "REQUEST_DELAY = 100"

text \<open>\<open>fetchKlines\<close>: \<open>None\<close> is the \<open>null\<close> it returns on either failure.\<close>

definition fetchKlines :: "network \<Rightarrow> nat \<Rightarrow> string \<Rightarrow> string \<Rightarrow> nat \<Rightarrow> kline list option" where
  "fetchKlines net n symbol iv limit =
     (case net n symbol iv limit of
        NetworkError \<Rightarrow> None
      | HttpError \<Rightarrow> None
      | HttpOk payload \<Rightarrow> Some payload)"

text \<open>
  The effects of \<open>fetchKlinesBatch\<close> in the order they happen: a request for a
  symbol, a call of the progress callback, a call of \<open>delay(ms)\<close>.
\<close>

datatype event = Fetch string | Progress nat nat string | Delay nat

text \<open>
  The \<open>Map\<close> is an association list in insertion order; \<open>results.set\<close> is
  \<open>AList.update\<close> (an existing key keeps its place).
\<close>

record fetch_state =
  fs_results :: "(string \<times> kline list) list"
  fs_processed :: nat
  fs_trace :: "event list"

text \<open>The body of the inner loop, for one symbol of the batch.\<close>

definition fetch_one ::
  "network \<Rightarrow> string \<Rightarrow> nat \<Rightarrow> bool \<Rightarrow> nat \<Rightarrow> string \<Rightarrow> fetch_state \<Rightarrow> fetch_state" where
  "fetch_one net iv limit hasCallback totalSymbols symbol st =
     (let klines = fetchKlines net (fs_processed st) symbol iv limit;
          st = st\<lparr>fs_trace := fs_trace st @ [Fetch symbol]\<rparr>;
          st = (case klines of
                  None \<Rightarrow> st
                | Some k \<Rightarrow> if length k > 0
                            then st\<lparr>fs_results := AList.update symbol k (fs_results st)\<rparr>
                            else st);
          st = st\<lparr>fs_processed := fs_processed st + 1\<rparr>;
          st = (if hasCallback
                then st\<lparr>fs_trace := fs_trace st @ [Progress (fs_processed st) totalSymbols symbol]\<rparr>
                else st);
          st = st\<lparr>fs_trace := fs_trace st @ [Delay REQUEST_DELAY]\<rparr>
      in st)"

text \<open>The inner loop \<open>for (const symbol of batch)\<close>.\<close>

fun fetch_batch ::
  "network \<Rightarrow> string \<Rightarrow> nat \<Rightarrow> bool \<Rightarrow> nat \<Rightarrow> string list \<Rightarrow> fetch_state \<Rightarrow> fetch_state" where
  "fetch_batch net iv limit hasCallback totalSymbols [] st = st"
| "fetch_batch net iv limit hasCallback totalSymbols (symbol # rest) st =
     fetch_batch net iv limit hasCallback totalSymbols rest
       (fetch_one net iv limit hasCallback totalSymbols symbol st)"

text \<open>
  The outer loop \<open>for (i = 0; i < symbols.length; i += BATCH_SIZE)\<close>, for any batch
  size \<open>B\<close>. With \<open>B = 0\<close> the source loop does not end, and the value is \<open>None\<close>.
\<close>

partial_function (option) batch_loop ::
  "nat \<Rightarrow> network \<Rightarrow> string \<Rightarrow> nat \<Rightarrow> bool \<Rightarrow> string list \<Rightarrow> nat \<Rightarrow> fetch_state
     \<Rightarrow> fetch_state option" where
  "batch_loop B net iv limit hasCallback symbols i st =
     (if i < length symbols then
        (let batch = slice symbols i (min (i + B) (length symbols));
             st' = fetch_batch net iv limit hasCallback (length symbols) batch st;
             st'' = (if i + B < length symbols
                     then st'\<lparr>fs_trace := fs_trace st' @ [Delay BATCH_DELAY]\<rparr>
                     else st')
         in batch_loop B net iv limit hasCallback symbols (i + B) st'')
      else Some st)"

definition fetchKlinesBatch_sized ::
  "nat \<Rightarrow> network \<Rightarrow> string list \<Rightarrow> string \<Rightarrow> nat \<Rightarrow> bool \<Rightarrow> fetch_state option" where
  "fetchKlinesBatch_sized B net symbols iv limit hasCallback =
     batch_loop B net iv limit hasCallback symbols 0
       \<lparr>fs_results = [], fs_processed = 0, fs_trace = []\<rparr>"

definition fetchKlinesBatch ::
  "network \<Rightarrow> string list \<Rightarrow> string \<Rightarrow> nat \<Rightarrow> bool \<Rightarrow> fetch_state option" where
  "fetchKlinesBatch = fetchKlinesBatch_sized BATCH_SIZE"

record ohlc =
  pk_opens :: "real list"
  pk_highs :: "real list"
  pk_lows :: "real list"
  pk_closes :: "real list"
  pk_volumes :: "real list"

definition parseKlines :: "kline list \<Rightarrow> ohlc" where
  "parseKlines klines =
     \<lparr>pk_opens = map k_open klines, pk_highs = map k_high klines, pk_lows = map k_low klines,
      pk_closes = map k_close klines, pk_volumes = map k_volume klines\<rparr>"

text \<open>Observations on a trace.\<close>

definition batch_delays :: "event list \<Rightarrow> nat" where
  "batch_delays tr = length (filter (\<lambda>e. e = Delay BATCH_DELAY) tr)"

fun fetched_symbol :: "event \<Rightarrow> string option" where
  "fetched_symbol (Fetch s) = Some s"
| "fetched_symbol _ = None"

definition attempted :: "event list \<Rightarrow> string list" where
  "attempted tr = List.map_filter fetched_symbol tr"


section \<open>Screening pipeline (scripts/binance-screener.js)\<close>

record scan_args =
  arg_interval :: string
  arg_limit :: nat
  maxResults :: int
  topVolume :: int

record scan_indicators =
  res_rsi :: real
  res_macd :: macd_latest
  res_ma20 :: real
  res_ma50 :: real
  res_bollinger :: "real bands"

record scan_result =
  symbol :: string
  res_price :: real
  res_indicators :: scan_indicators
  res_crosses :: cross_flags
  score :: real

definition make_result :: "string \<Rightarrow> indicators \<Rightarrow> scan_result" where
  "make_result name ind =
     \<lparr>symbol = name, res_price = price ind,
      res_indicators = \<lparr>res_rsi = rsi ind, res_macd = macd ind, res_ma20 = ma20 ind,
                        res_ma50 = ma50 ind, res_bollinger = bollinger ind\<rparr>,
      res_crosses = crosses ind, score = calculateScore ind\<rparr>"

text \<open>
  The loop \<open>for (const [symbol, klines] of klinesMap)\<close> with its two variables
  \<open>results\<close> and \<open>scanned\<close>. The \<open>catch\<close> of the source is the \<open>Inl\<close> branch.
\<close>

fun analyze_loop ::
  "filters option \<Rightarrow> (string \<times> kline list) list \<Rightarrow> scan_result list \<times> nat
     \<Rightarrow> scan_result list \<times> nat" where
  "analyze_loop criteria [] (results, scanned) = (results, scanned)"
| "analyze_loop criteria ((name, klines) # rest) (results, scanned) =
     (let scanned = scanned + 1
      in if length klines < 100 then analyze_loop criteria rest (results, scanned)
         else
           (let pk = parseKlines klines
            in case getLatestIndicators (pk_closes pk) (pk_highs pk) (pk_lows pk) of
                 Inl e \<Rightarrow> analyze_loop criteria rest (results, scanned)
               | Inr ind \<Rightarrow>
                   if matchesFilters ind criteria
                   then analyze_loop criteria rest (results @ [make_result name ind], scanned)
                   else analyze_loop criteria rest (results, scanned)))"

text \<open>\<open>results.sort((a, b) => b.score - a.score)\<close>: a stable sort, descending by score.\<close>

definition sort_by_score :: "scan_result list \<Rightarrow> scan_result list" where
  "sort_by_score rs = sort_key (\<lambda>r. - score r) rs"

record report =
  timestamp :: string
  interval :: string
  filters :: "filters option"
  results :: "scan_result list"
  totalScanned :: nat
  matchedCount :: nat

text \<open>
  The second half of \<open>scanSymbols\<close>, from the fetched map on. The criteria are
  \<open>parseFiltersFromArgs(args)\<close> and \<open>now\<close> is the time of the run; both are given.
\<close>

definition build_report ::
  "scan_args \<Rightarrow> filters option \<Rightarrow> string \<Rightarrow> (string \<times> kline list) list \<Rightarrow> report" where
  "build_report args criteria now klinesMap =
     (case analyze_loop criteria klinesMap ([], 0) of
        (found, scanned) \<Rightarrow>
          (let sorted = sort_by_score found;
               finalResults = (if maxResults args > 0
                               then slice sorted 0 (nat (maxResults args))
                               else sorted)
           in \<lparr>timestamp = now, interval = arg_interval args, filters = criteria,
               results = finalResults, totalScanned = scanned,
               matchedCount = length sorted\<rparr>))"

text \<open>
  \<open>scanSymbols\<close> for a universe of symbols that has been listed (and narrowed by
  volume) already: fetch, then analyse. The progress callback is always passed.
\<close>

definition scanSymbols ::
  "network \<Rightarrow> string list \<Rightarrow> scan_args \<Rightarrow> filters option \<Rightarrow> string \<Rightarrow> report option" where
  "scanSymbols net symbols args criteria now =
     map_option (\<lambda>st. build_report args criteria now (fs_results st))
       (fetchKlinesBatch net symbols (arg_interval args) (arg_limit args) True)"

section \<open>Notions of the specification\<close>

text \<open>
  The trailing window that starts at index \<open>i\<close>, its computed mean, and the population
  variance computed from the squared deviations from a mean \<open>m\<close>: their sum divided by the
  number of values, not by one less.
\<close>

definition window_ieee :: "double list \<Rightarrow> nat \<Rightarrow> nat \<Rightarrow> double list" where
  "window_ieee prices period i = take period (drop i prices)"

definition mean_ieee :: "double list \<Rightarrow> double" where
  "mean_ieee xs = fdiv (reduce_fadd xs) (Num (real (length xs)))"

definition population_variance_ieee :: "double list \<Rightarrow> double \<Rightarrow> double" where
  "population_variance_ieee xs m =
     fdiv (reduce_fadd (map (\<lambda>x. fmul (fsub x m) (fsub x m)) xs)) (Num (real (length xs)))"

text \<open>
  Predicates used in the proofs: a double that is not negative (or is \<open>NaN\<close>), a double in
  \<open>[0, 100]\<close> (or \<open>NaN\<close>), the spacing of the doubles around a real, the reals that are
  multiples of their spacing, the reals that are doubles, the rounded value before the
  overflow test, and the results a division can have.
\<close>

definition nn :: "double \<Rightarrow> bool" where
  "nn d = (case d of Num r \<Rightarrow> 0 \<le> r | PInf \<Rightarrow> True | NInf \<Rightarrow> False | Nan \<Rightarrow> True)"

definition in_range :: "double \<Rightarrow> bool" where
  "in_range d = (case d of Num r \<Rightarrow> 0 \<le> r \<and> r \<le> 100 | PInf \<Rightarrow> False | NInf \<Rightarrow> False | Nan \<Rightarrow> True)"

definition ulp_of :: "real \<Rightarrow> real" where
  "ulp_of x = 2 powr real_of_int (binade x - 52)"

definition on_grid :: "real \<Rightarrow> bool" where
  "on_grid c = (\<exists>m::int. c = real_of_int m * ulp_of c)"

definition representable :: "real \<Rightarrow> bool" where
  "representable c = (on_grid c \<and> \<bar>c\<bar> < 2 ^ 1024)"

definition rounded :: "real \<Rightarrow> real" where
  "rounded x = ulp_of x * real_of_int (round_half_even (x / ulp_of x))"

definition finite_or_inf :: "double \<Rightarrow> bool" where
  "finite_or_inf d = (case d of Num r \<Rightarrow> representable r | _ \<Rightarrow> True)"

text \<open>
  A fetched series is analysed when the loop reaches \<open>getLatestIndicators\<close> for it, and it
  matches when that call returns a snapshot that passes the criteria.
\<close>

definition reaches_analysis :: "string \<times> kline list \<Rightarrow> bool" where
  "reaches_analysis entry = (\<not> length (snd entry) < 100)"

definition entry_matches :: "filters option \<Rightarrow> string \<times> kline list \<Rightarrow> bool" where
  "entry_matches criteria entry =
     (reaches_analysis entry \<and>
      (case getLatestIndicators (map k_close (snd entry)) (map k_high (snd entry))
              (map k_low (snd entry)) of
         Inl e \<Rightarrow> False
       | Inr ind \<Rightarrow> matchesFilters ind criteria))"



section \<open>Facts about the helpers\<close>

lemma reduce_add_acc: "foldl (\<lambda>a b. a + b) (a::real) xs = a + sum_list xs"
  by (induction xs arbitrary: a) simp_all

lemma reduce_add_sum_list: "reduce_add xs = sum_list xs"
  by (simp add: reduce_add_def reduce_add_acc)

lemma slice_0: "slice xs 0 n = take n xs"
  by (simp add: slice_def)

subsection \<open>Moving averages and MACD\<close>

lemma length_ema_loop: "length (ema_loop m prev ps) = length ps"
  by (induction ps arbitrary: prev) (simp_all add: Let_def)

lemma length_rsi_loop: "length (rsi_loop p g l xs) = length xs"
  by (induction xs arbitrary: g l) (auto simp: Let_def)

lemma calculateEMA_ok:
  "0 < period \<Longrightarrow> period \<le> length prices \<Longrightarrow>
   \<exists>es. calculateEMA prices period = Inr es \<and> length es = length prices - period + 1
     \<and> hd es = sum_list (take period prices) / real period"
  by (simp add: calculateEMA_def Let_def length_ema_loop reduce_add_sum_list slice_0)

lemma calculateEMA_raises: "calculateEMA prices period = Inl InsufficientData \<longleftrightarrow> length prices < period"
  by (simp add: calculateEMA_def Let_def)

lemma calculateEMA_Inr_length:
  "calculateEMA prices period = Inr es \<Longrightarrow> length es = length prices - period + 1 \<and> 0 < period \<and> period \<le> length prices"
  by (auto simp: calculateEMA_def Let_def length_ema_loop split: if_splits)

lemma calculateSMA_nth:
  assumes "0 < period" "period \<le> length prices"
  shows "\<exists>ss. calculateSMA prices period = Inr ss \<and> length ss = length prices - period + 1
     \<and> (\<forall>j < length ss. ss ! j = sum_list (take period (drop j prices)) / real period)"
proof -
  let ?f = "\<lambda>i. reduce_add (slice prices (i + 1 - period) (i + 1)) / real period"
  let ?ss = "map ?f [period - 1..<length prices]"
  have eq: "calculateSMA prices period = Inr ?ss" using assms by (simp add: calculateSMA_def)
  have len: "length ?ss = length prices - period + 1" using assms by simp
  have "?ss ! j = sum_list (take period (drop j prices)) / real period" if "j < length ?ss" for j
  proof -
    have j: "j < length prices - (period - 1)" using that by simp
    then have "?ss ! j = ?f (period - 1 + j)" by simp
    moreover have "period - 1 + j + 1 - period = j" "period - 1 + j + 1 - j = period" using assms by simp_all
    ultimately show ?thesis by (simp add: slice_def reduce_add_sum_list)
  qed
  then show ?thesis using eq len by blast
qed

lemma calculateSMA_ok:
  assumes "0 < period" "period \<le> length prices"
  shows "\<exists>ss. calculateSMA prices period = Inr ss \<and> length ss = length prices - period + 1
     \<and> hd ss = sum_list (take period prices) / real period"
proof -
  obtain ss where ss: "calculateSMA prices period = Inr ss" "length ss = length prices - period + 1"
     "\<forall>j < length ss. ss ! j = sum_list (take period (drop j prices)) / real period"
    using calculateSMA_nth[OF assms] by blast
  then have "ss \<noteq> []" by auto
  then have "hd ss = ss ! 0" by (simp add: hd_conv_nth)
  also have "\<dots> = sum_list (take period prices) / real period" using ss by simp
  finally show ?thesis using ss by blast
qed

lemma those_length: "those xs = Some ys \<Longrightarrow> length ys = length xs"
  by (induction xs arbitrary: ys) (auto split: option.splits)

lemma those_map_Some: "(\<And>x. x \<in> set xs \<Longrightarrow> f x \<noteq> None) \<Longrightarrow> those (map f xs) = Some (map (\<lambda>x. the (f x)) xs)"
  by (induction xs) (auto split: option.splits)

lemma macd_line_length: "macd_line f s off = Some ml \<Longrightarrow> length ml = length s"
  unfolding macd_line_def by (drule those_length) simp

lemma macd_line_ok:
  "0 \<le> off \<Longrightarrow> int (length s) + off \<le> int (length f) \<Longrightarrow> \<exists>ml. macd_line f s off = Some ml"
  unfolding macd_line_def
  by (subst those_map_Some) (auto simp: js_get_def)

lemma calculateMACD_raises:
  "calculateMACD closes fast slow signal = Inl InsufficientData \<longleftrightarrow>
     length closes < slow + signal \<or> length closes < fast"
proof (cases "length closes < slow + signal")
  case True
  then show ?thesis by (simp add: calculateMACD_def)
next
  case False
  show ?thesis
  proof (cases "calculateEMA closes fast")
    case (Inl e)
    then show ?thesis using False calculateEMA_raises[of closes fast]
      by (auto simp: calculateMACD_def)
  next
    case f: (Inr fastEMA)
    then have nf: "\<not> length closes < fast" using calculateEMA_Inr_length by fastforce
    show ?thesis
    proof (cases "calculateEMA closes slow")
      case (Inl e)
      then have "e \<noteq> InsufficientData" using False calculateEMA_raises[of closes slow] by auto
      then show ?thesis using f Inl False nf by (simp add: calculateMACD_def)
    next
      case s: (Inr slowEMA)
      then have ls: "length slowEMA = length closes - slow + 1" using calculateEMA_Inr_length by blast
      show ?thesis
      proof (cases "macd_line fastEMA slowEMA (int slow - int fast)")
        case None
        then show ?thesis using f s False nf by (simp add: calculateMACD_def)
      next
        case (Some ml)
        then have "length ml = length closes - slow + 1" using macd_line_length ls by metis
        then have "\<not> length ml < signal" using False by linarith
        then have "calculateEMA ml signal \<noteq> Inl InsufficientData" by (simp add: calculateEMA_raises)
        then show ?thesis using f s Some False nf
          by (auto simp: calculateMACD_def split: sum.splits)
      qed
    qed
  qed
qed

lemma calculateMACD_ok:
  assumes "0 < fast" "fast \<le> slow" "0 < signal" "slow + signal \<le> length closes"
  shows "\<exists>r. calculateMACD closes fast slow signal = Inr r
            \<and> length (macdLine r) = length closes - slow + 1
            \<and> length (signalLine r) = length closes - slow + 2 - signal
            \<and> length (histogram r) = length closes - slow + 2 - signal"
proof -
  obtain fe where fe: "calculateEMA closes fast = Inr fe" "length fe = length closes - fast + 1"
    using calculateEMA_ok[of fast closes] assms by auto
  obtain se where se: "calculateEMA closes slow = Inr se" "length se = length closes - slow + 1"
    using calculateEMA_ok[of slow closes] assms by auto
  have "int (length se) + (int slow - int fast) \<le> int (length fe)" using fe se assms by simp
  then obtain ml where ml: "macd_line fe se (int slow - int fast) = Some ml"
    using macd_line_ok[of "int slow - int fast" se fe] assms by auto
  then have lml: "length ml = length closes - slow + 1" using macd_line_length se by metis
  have "signal \<le> length ml" using lml assms by linarith
  from calculateEMA_ok[OF assms(3) this]
  obtain sl where sl: "calculateEMA ml signal = Inr sl" "length sl = length ml - signal + 1"
    by blast
  show ?thesis using fe se ml sl lml assms
    by (simp add: calculateMACD_def macd_histogram_def)
qed

subsection \<open>RSI and Bollinger bands: what is returned\<close>

lemma length_price_changes: "length (price_changes cs) = length cs - 1"
  by (simp add: price_changes_def)

lemma calculateRSI_returns:
  assumes "0 < period" and "period + 1 \<le> length closes"
  shows "\<exists>rs. calculateRSI closes period = Inr rs \<and> length rs = length closes - period"
  using assms
  by (simp add: calculateRSI_def Let_def length_rsi_loop gains_of_def losses_of_def
        length_price_changes)

lemma calculateBollingerBands_returns:
  assumes "0 < period" and "period \<le> length prices"
  shows "\<exists>bb. calculateBollingerBands prices period k = Inr bb
          \<and> length (middle bb) = length prices - period + 1
          \<and> length (upper bb) = length prices - period + 1
          \<and> length (lower bb) = length prices - period + 1"
proof -
  obtain ss where "calculateSMA prices period = Inr ss" "length ss = length prices - period + 1"
    using calculateSMA_nth[OF assms] by blast
  then show ?thesis using assms by (simp add: calculateBollingerBands_def Let_def)
qed

lemma calculateRSI_raises:
  "calculateRSI closes period = Inl InsufficientData \<longleftrightarrow> length closes < period + 1"
  by (simp add: calculateRSI_def Let_def)

lemma calculateSMA_raises:
  "calculateSMA prices period = Inl InsufficientData \<longleftrightarrow> length prices < period"
  by (simp add: calculateSMA_def)

lemma getLatestIndicators_succeeds:
  assumes "50 \<le> length closes"
  shows "\<exists>s. getLatestIndicators closes highs lows = Inr s"
proof -
  obtain rs where rs: "calculateRSI closes 14 = Inr rs"
    using calculateRSI_returns[of 14 closes] assms by auto
  obtain md where md: "calculateMACD closes 12 26 9 = Inr md"
    using calculateMACD_ok[of 12 26 9 closes] assms by auto
  obtain a where a: "calculateSMA closes 20 = Inr a"
    using calculateSMA_nth[of 20 closes] assms by auto
  obtain b where b: "calculateSMA closes 50 = Inr b"
    using calculateSMA_nth[of 50 closes] assms by auto
  obtain bb where bb: "calculateBollingerBands closes 20 2 = Inr bb"
    using calculateBollingerBands_returns[of 20 closes 2] assms by auto
  show ?thesis by (simp add: getLatestIndicators_def rs md a b bb)
qed

lemma getLatestIndicators_raises:
  assumes "length closes < 50"
  shows "getLatestIndicators closes highs lows = Inl InsufficientData"
proof (cases "length closes < 15")
  case True
  then have "calculateRSI closes 14 = Inl InsufficientData" by (simp add: calculateRSI_raises)
  then show ?thesis by (simp add: getLatestIndicators_def)
next
  case r: False
  then obtain rs where rs: "calculateRSI closes 14 = Inr rs"
    using calculateRSI_returns[of 14 closes] by auto
  show ?thesis
  proof (cases "length closes < 35")
    case True
    then have "calculateMACD closes 12 26 9 = Inl InsufficientData"
      by (simp add: calculateMACD_raises)
    then show ?thesis by (simp add: getLatestIndicators_def rs)
  next
    case False
    then obtain md where md: "calculateMACD closes 12 26 9 = Inr md"
      using calculateMACD_ok[of 12 26 9 closes] by auto
    obtain a where a: "calculateSMA closes 20 = Inr a"
      using calculateSMA_nth[of 20 closes] False by auto
    have "calculateSMA closes 50 = Inl InsufficientData"
      using assms by (simp add: calculateSMA_raises)
    then show ?thesis by (simp add: getLatestIndicators_def rs md a)
  qed
qed

text \<open>With its fixed periods the snapshot never leaves the numbers.\<close>

lemma getLatestIndicators_numbers:
  "getLatestIndicators closes highs lows \<noteq> Inl NotANumber"
proof (cases "length closes < 50")
  case True
  then show ?thesis using getLatestIndicators_raises[OF True, of highs lows] by simp
next
  case False
  then obtain s where "getLatestIndicators closes highs lows = Inr s"
    using getLatestIndicators_succeeds[of closes highs lows] by auto
  then show ?thesis by simp
qed

section \<open>Facts about the double-precision model\<close>

subsection \<open>Rounding to the nearest integer\<close>

lemma rhe_floor: "\<lfloor>y\<rfloor> \<le> round_half_even y \<and> round_half_even y \<le> \<lfloor>y\<rfloor> + 1"
  by (simp add: round_half_even_def Let_def)

lemma rhe_ge: "real_of_int n \<le> y \<Longrightarrow> n \<le> round_half_even y"
proof -
  assume "real_of_int n \<le> y"
  then have "n \<le> \<lfloor>y\<rfloor>" by (simp add: le_floor_iff)
  then show ?thesis using rhe_floor[of y] by linarith
qed

lemma rhe_int: "round_half_even (real_of_int n) = n"
  by (simp add: round_half_even_def)

lemma rhe_le: "y \<le> real_of_int n \<Longrightarrow> round_half_even y \<le> n"
proof (cases "y = real_of_int n")
  case True
  then show ?thesis by (simp add: rhe_int)
next
  case False
  assume "y \<le> real_of_int n"
  then have "y < real_of_int n" using False by simp
  then have "\<lfloor>y\<rfloor> < n" by (simp add: floor_less_iff)
  then show ?thesis using rhe_floor[of y] by linarith
qed

lemma rhe_neg: "round_half_even (- y) = - round_half_even y"
proof (cases "y = real_of_int \<lfloor>y\<rfloor>")
  case True
  then have "round_half_even y = \<lfloor>y\<rfloor>" using rhe_int[of "\<lfloor>y\<rfloor>"] by simp
  moreover have "- y = real_of_int (- \<lfloor>y\<rfloor>)" using True by simp
  then have "round_half_even (- y) = - \<lfloor>y\<rfloor>" using rhe_int[of "- \<lfloor>y\<rfloor>"] by simp
  ultimately show ?thesis by simp
next
  case False
  define g where "g = \<lfloor>y\<rfloor>"
  define d where "d = y - real_of_int g"
  have f: "\<lfloor>- y\<rfloor> = - g - 1"
    using False by (simp add: floor_minus ceiling_altdef g_def)
  have d: "0 < d" "d < 1" using False unfolding d_def g_def by linarith+
  have nd: "- y - real_of_int (- g - 1) = 1 - d" unfolding d_def by simp
  have a: "round_half_even y =
      (if d < 1 / 2 then g else if d > 1 / 2 then g + 1 else if even g then g else g + 1)"
    by (simp only: round_half_even_def Let_def g_def[symmetric] d_def[symmetric])
  have b: "round_half_even (- y) =
      (if 1 - d < 1 / 2 then - g - 1 else if 1 - d > 1 / 2 then (- g - 1) + 1
       else if even (- g - 1) then - g - 1 else (- g - 1) + 1)"
    by (simp only: round_half_even_def Let_def f nd)
  consider "d < 1 / 2" | "d > 1 / 2" | "d = 1 / 2" by linarith
  then show ?thesis
  proof cases
    case 1
    then have "\<not> 1 - d < 1 / 2" "1 - d > 1 / 2" by linarith+
    then show ?thesis using a b 1 by simp
  next
    case 2
    then have "1 - d < 1 / 2" "\<not> d < 1 / 2" by linarith+
    then show ?thesis using a b 2 by simp
  next
    case 3
    then have "\<not> 1 - d < 1 / 2" "\<not> 1 - d > 1 / 2" "\<not> d < 1 / 2" "\<not> d > 1 / 2" by simp_all
    then show ?thesis using a b by (cases "even g") simp_all
  qed
qed

subsection \<open>Binades and the rounded value\<close>

lemma ulp_pos: "0 < ulp_of x"
  by (simp add: ulp_of_def)

lemma pw_mono: "a \<le> b \<Longrightarrow> (2::real) powr real_of_int a \<le> 2 powr real_of_int b"
  by (simp add: powr_mono)

lemma binade_upper: "x \<noteq> 0 \<Longrightarrow> \<bar>x\<bar> < 2 powr real_of_int (binade x + 1)"
proof -
  assume x: "x \<noteq> 0"
  have "log 2 \<bar>x\<bar> < real_of_int (\<lfloor>log 2 \<bar>x\<bar>\<rfloor> + 1)" by linarith
  also have "\<dots> \<le> real_of_int (binade x + 1)" by (simp add: binade_def)
  finally have "log 2 \<bar>x\<bar> < real_of_int (binade x + 1)" .
  then show ?thesis using x by (simp add: log_less_iff)
qed

lemma binade_lower: "x \<noteq> 0 \<Longrightarrow> - 1022 < binade x \<Longrightarrow> 2 powr real_of_int (binade x) \<le> \<bar>x\<bar>"
proof -
  assume x: "x \<noteq> 0" and b: "- 1022 < binade x"
  then have "binade x = \<lfloor>log 2 \<bar>x\<bar>\<rfloor>" by (simp add: binade_def max_def split: if_splits)
  then have "real_of_int (binade x) \<le> log 2 \<bar>x\<bar>" by simp
  then show ?thesis using x by (simp add: le_log_iff)
qed

lemma binade_mono: "x \<noteq> 0 \<Longrightarrow> \<bar>x\<bar> \<le> \<bar>y\<bar> \<Longrightarrow> binade x \<le> binade y"
proof -
  assume x: "x \<noteq> 0" and le: "\<bar>x\<bar> \<le> \<bar>y\<bar>"
  then have "log 2 \<bar>x\<bar> \<le> log 2 \<bar>y\<bar>" by simp
  then have "\<lfloor>log 2 \<bar>x\<bar>\<rfloor> \<le> \<lfloor>log 2 \<bar>y\<bar>\<rfloor>" by (rule floor_mono)
  then show ?thesis by (simp add: binade_def)
qed

lemma binade_ge: "- 1022 \<le> binade x"
  by (simp add: binade_def)

lemma binade_le_if: "x \<noteq> 0 \<Longrightarrow> - 1022 \<le> e \<Longrightarrow> \<bar>x\<bar> < 2 powr real_of_int (e + 1) \<Longrightarrow> binade x \<le> e"
proof -
  assume x: "x \<noteq> 0" and e: "- 1022 \<le> e" and lt: "\<bar>x\<bar> < 2 powr real_of_int (e + 1)"
  then have "log 2 \<bar>x\<bar> < real_of_int (e + 1)" by (simp add: log_less_iff)
  then have "\<lfloor>log 2 \<bar>x\<bar>\<rfloor> < e + 1" by (simp only: floor_less_iff)
  then show ?thesis using e by (simp add: binade_def)
qed

lemma binade_minus: "binade (- x) = binade x"
  by (simp add: binade_def)

lemma ulp_minus: "ulp_of (- x) = ulp_of x"
  by (simp add: ulp_of_def binade_minus)

lemma fl_rounded:
  "x \<noteq> 0 \<Longrightarrow> fl x = (if \<bar>rounded x\<bar> \<ge> 2 ^ 1024 then (if x > 0 then PInf else NInf)
                        else Num (rounded x))"
  by (simp add: fl_def rounded_def ulp_of_def Let_def)

lemma rounded_minus: "rounded (- x) = - rounded x"
  by (simp add: rounded_def ulp_minus rhe_neg)

lemma rounded_nonneg: "0 \<le> x \<Longrightarrow> 0 \<le> rounded x"
proof -
  assume "0 \<le> x"
  then have "real_of_int 0 \<le> x / ulp_of x" using ulp_pos[of x] by simp
  then have "0 \<le> round_half_even (x / ulp_of x)" by (rule rhe_ge)
  then show ?thesis using ulp_pos[of x] by (simp add: rounded_def)
qed

lemma two_powr_52: "(2::real) powr real_of_int e / 2 powr real_of_int (e - 52) = real_of_int (2 ^ 52)"
proof -
  have "(2::real) powr real_of_int e / 2 powr real_of_int (e - 52) = 2 powr (real_of_int e - real_of_int (e - 52))"
    by (simp only: powr_diff)
  also have "real_of_int e - real_of_int (e - 52) = real (52::nat)" by simp
  also have "(2::real) powr real (52::nat) = 2 ^ 52" by (simp only: powr_realpow zero_less_numeral)
  finally show ?thesis by simp
qed

lemma two_powr_53: "(2::real) powr real_of_int (e + 1) / 2 powr real_of_int (e - 52) = real_of_int (2 ^ 53)"
proof -
  have "(2::real) powr real_of_int (e + 1) / 2 powr real_of_int (e - 52)
          = 2 powr (real_of_int (e + 1) - real_of_int (e - 52))"
    by (simp only: powr_diff)
  also have "real_of_int (e + 1) - real_of_int (e - 52) = real (53::nat)" by simp
  also have "(2::real) powr real (53::nat) = 2 ^ 53" by (simp only: powr_realpow zero_less_numeral)
  finally show ?thesis by simp
qed

lemma rounded_ge:
  assumes c: "0 < c" "on_grid c" and le: "c \<le> x"
  shows "c \<le> rounded x"
proof -
  have x: "x \<noteq> 0" "0 < x" using c le by linarith+
  have cn: "c \<noteq> 0" using c by simp
  have bm: "binade c \<le> binade x" using binade_mono[OF cn] c le by simp
  obtain m where m: "c = real_of_int m * ulp_of c" using c(2) unfolding on_grid_def by blast
  show ?thesis
  proof (cases "binade c = binade x")
    case True
    then have u: "ulp_of c = ulp_of x" by (simp add: ulp_of_def)
    have "real_of_int m = c / ulp_of x" using m u ulp_pos[of x] by simp
    also have "\<dots> \<le> x / ulp_of x" using le ulp_pos[of x] by (simp add: divide_right_mono)
    finally have "m \<le> round_half_even (x / ulp_of x)" by (rule rhe_ge)
    then have "real_of_int m * ulp_of x \<le> real_of_int (round_half_even (x / ulp_of x)) * ulp_of x"
      using ulp_pos[of x] by simp
    then show ?thesis using m u by (simp add: rounded_def mult.commute)
  next
    case False
    then have lt: "binade c + 1 \<le> binade x" using bm by simp
    then have big: "- 1022 < binade x" using binade_ge[of c] by linarith
    have px: "2 powr real_of_int (binade x) \<le> x" using binade_lower[OF x(1) big] x(2) by simp
    have "c < 2 powr real_of_int (binade c + 1)" using binade_upper[OF cn] c(1) by simp
    also have "\<dots> \<le> 2 powr real_of_int (binade x)" using lt by (rule pw_mono)
    finally have cp: "c < 2 powr real_of_int (binade x)" .
    have "real_of_int (2 ^ 52) = 2 powr real_of_int (binade x) / ulp_of x"
      unfolding ulp_of_def by (rule two_powr_52[symmetric])
    also have "\<dots> \<le> x / ulp_of x" using px ulp_pos[of x] by (simp add: divide_right_mono)
    finally have "2 ^ 52 \<le> round_half_even (x / ulp_of x)" by (rule rhe_ge)
    then have "real_of_int (2 ^ 52) \<le> real_of_int (round_half_even (x / ulp_of x))"
      by (simp only: of_int_le_iff)
    then have "ulp_of x * real_of_int (2 ^ 52) \<le> rounded x"
      unfolding rounded_def using ulp_pos[of x] by (simp only: mult_le_cancel_left_pos)
    moreover have "ulp_of x * real_of_int (2 ^ 52) = 2 powr real_of_int (binade x)"
      using two_powr_52[of "binade x"] ulp_pos[of x] unfolding ulp_of_def
      by (simp add: field_simps)
    ultimately show ?thesis using cp by linarith
  qed
qed

lemma rounded_le:
  assumes x: "0 < x" and c: "on_grid c" and le: "x \<le> c"
  shows "rounded x \<le> c"
proof -
  have xn: "x \<noteq> 0" using x by simp
  have cn: "c \<noteq> 0" "0 < c" using x le by linarith+
  have bm: "binade x \<le> binade c" using binade_mono[OF xn] x le by simp
  obtain m where m: "c = real_of_int m * ulp_of c" using c unfolding on_grid_def by blast
  show ?thesis
  proof (cases "binade c = binade x")
    case True
    then have u: "ulp_of c = ulp_of x" by (simp add: ulp_of_def)
    have "x / ulp_of x \<le> c / ulp_of x" using le ulp_pos[of x] by (simp add: divide_right_mono)
    also have "c / ulp_of x = real_of_int m" using m u ulp_pos[of x] by simp
    finally have "round_half_even (x / ulp_of x) \<le> m" by (rule rhe_le)
    then have "real_of_int (round_half_even (x / ulp_of x)) * ulp_of x \<le> real_of_int m * ulp_of x"
      using ulp_pos[of x] by simp
    then show ?thesis using m u by (simp add: rounded_def mult.commute)
  next
    case False
    then have lt: "binade x + 1 \<le> binade c" using bm by simp
    then have big: "- 1022 < binade c" using binade_ge[of x] by linarith
    have pc: "2 powr real_of_int (binade c) \<le> c" using binade_lower[OF cn(1) big] cn(2) by simp
    have xp: "x < 2 powr real_of_int (binade x + 1)" using binade_upper[OF xn] x by simp
    have "x / ulp_of x \<le> 2 powr real_of_int (binade x + 1) / ulp_of x"
      using xp ulp_pos[of x] by (simp add: divide_right_mono)
    also have "\<dots> = real_of_int (2 ^ 53)" unfolding ulp_of_def by (rule two_powr_53)
    finally have "round_half_even (x / ulp_of x) \<le> 2 ^ 53" by (rule rhe_le)
    then have "real_of_int (round_half_even (x / ulp_of x)) \<le> real_of_int (2 ^ 53)"
      by (simp only: of_int_le_iff)
    then have "rounded x \<le> ulp_of x * real_of_int (2 ^ 53)"
      unfolding rounded_def using ulp_pos[of x] by (simp only: mult_le_cancel_left_pos)
    moreover have "ulp_of x * real_of_int (2 ^ 53) = 2 powr real_of_int (binade x + 1)"
      using two_powr_53[of "binade x"] ulp_pos[of x] unfolding ulp_of_def
      by (simp add: field_simps)
    moreover have "2 powr real_of_int (binade x + 1) \<le> 2 powr real_of_int (binade c)"
      using lt by (rule pw_mono)
    ultimately show ?thesis using pc by linarith
  qed
qed

subsection \<open>Rounding is monotone and exact on doubles\<close>

lemma on_grid_minus: "on_grid (- c) = on_grid c"
proof -
  have "(\<exists>m::int. - c = real_of_int m * ulp_of c) = (\<exists>m::int. c = real_of_int m * ulp_of c)"
  proof
    assume "\<exists>m::int. - c = real_of_int m * ulp_of c"
    then obtain m :: int where "- c = real_of_int m * ulp_of c" by blast
    then have "c = real_of_int (- m) * ulp_of c" by simp
    then show "\<exists>m::int. c = real_of_int m * ulp_of c" by blast
  next
    assume "\<exists>m::int. c = real_of_int m * ulp_of c"
    then obtain m :: int where "c = real_of_int m * ulp_of c" by blast
    then have "- c = real_of_int (- m) * ulp_of c" by simp
    then show "\<exists>m::int. - c = real_of_int m * ulp_of c" by blast
  qed
  then show ?thesis by (simp add: on_grid_def ulp_minus)
qed

lemma representable_minus: "representable (- c) = representable c"
  by (simp add: representable_def on_grid_minus)

lemma on_grid_0: "on_grid 0"
  unfolding on_grid_def by (rule exI[of _ 0]) simp

lemma fl_0: "fl 0 = Num 0"
  by (simp add: fl_def)

lemma fl_minus: "fl (- x) = fneg (fl x)"
proof (cases "x = 0")
  case True
  then show ?thesis by (simp add: fl_0)
next
  case False
  then have "- x \<noteq> 0" by simp
  then show ?thesis using False by (simp add: fl_rounded rounded_minus)
qed

lemma fl_nonneg: "0 \<le> x \<Longrightarrow> fl x = PInf \<or> (\<exists>r. fl x = Num r \<and> 0 \<le> r)"
proof (cases "x = 0")
  case True
  then show ?thesis by (simp add: fl_0)
next
  case False
  assume "0 \<le> x"
  then have "0 < x" using False by simp
  then show ?thesis using rounded_nonneg[of x] False by (simp add: fl_rounded)
qed

lemma fl_exact: "representable c \<Longrightarrow> fl c = Num c"
proof (cases "c = 0")
  case True
  then show ?thesis by (simp add: fl_0)
next
  case False
  assume r: "representable c"
  then obtain m where m: "c = real_of_int m * ulp_of c" unfolding representable_def on_grid_def by blast
  have "c / ulp_of c = real_of_int m" using m ulp_pos[of c] by (simp add: field_simps)
  then have "rounded c = c" using m by (simp add: rounded_def rhe_int mult.commute)
  then show ?thesis using False r by (simp add: fl_rounded representable_def)
qed

lemma fl_ge:
  assumes c: "representable c" and le: "c \<le> x"
  shows "fl x = PInf \<or> (\<exists>r. fl x = Num r \<and> c \<le> r)"
proof -
  consider "x = 0" | "0 < x" "c \<le> 0" | "0 < x" "0 < c" | "x < 0" by linarith
  then show ?thesis
  proof cases
    case 1
    then show ?thesis using le by (simp add: fl_0)
  next
    case 2
    then show ?thesis using fl_nonneg[of x] by auto
  next
    case 3
    have "c \<le> rounded x" using rounded_ge[OF 3(2) _ le] c by (simp add: representable_def)
    then show ?thesis using 3(1) by (simp add: fl_rounded)
  next
    case 4
    then have p: "0 < - x" "- x \<le> - c" using le by simp_all
    have g: "on_grid (- c)" using c by (simp add: representable_def on_grid_minus)
    have "rounded (- x) \<le> - c" using rounded_le[OF p(1) g p(2)] .
    moreover have "0 \<le> rounded (- x)" using rounded_nonneg[of "- x"] p(1) by simp
    ultimately have b: "c \<le> rounded x" "\<bar>rounded x\<bar> \<le> \<bar>c\<bar>" by (simp_all add: rounded_minus)
    have "\<bar>rounded x\<bar> < 2 ^ 1024" using b(2) c unfolding representable_def by linarith
    then show ?thesis using 4 b(1) by (simp add: fl_rounded)
  qed
qed

lemma fl_le:
  assumes c: "representable c" and le: "x \<le> c"
  shows "fl x = NInf \<or> (\<exists>r. fl x = Num r \<and> r \<le> c)"
proof -
  have "representable (- c)" "- c \<le> - x" using c le by (simp_all add: representable_minus)
  from fl_ge[OF this] show ?thesis
    by (cases "fl x") (auto simp: fl_minus)
qed

lemma fl_between:
  assumes "representable a" "representable b" "a \<le> x" "x \<le> b"
  shows "\<exists>r. fl x = Num r \<and> a \<le> r \<and> r \<le> b"
  using fl_ge[OF assms(1,3)] fl_le[OF assms(2,4)] by auto

lemma two_powr_nat: "0 \<le> j \<Longrightarrow> (2::real) powr real_of_int j = real_of_int (2 ^ nat j)"
proof -
  assume "0 \<le> j"
  then have "real_of_int j = real (nat j)" by simp
  then have "(2::real) powr real_of_int j = 2 powr real (nat j)" by (simp only:)
  also have "\<dots> = 2 ^ nat j" by (simp only: powr_realpow zero_less_numeral)
  finally show ?thesis by simp
qed

lemma dyadic_on_grid:
  assumes c: "c = real_of_int m * 2 powr real_of_int k" and m: "\<bar>m\<bar> < 2 ^ 53" and k: "- 1074 \<le> k"
  shows "on_grid c"
proof (cases "c = 0")
  case True
  then show ?thesis by (simp add: on_grid_0)
next
  case False
  have "\<bar>real_of_int m\<bar> < real_of_int (2 ^ 53)" using m by (simp only: of_int_abs[symmetric] of_int_less_iff)
  then have "\<bar>c\<bar> < real_of_int (2 ^ 53) * 2 powr real_of_int k"
    unfolding c by (simp add: abs_mult)
  also have "real_of_int (2 ^ 53) * 2 powr real_of_int k = 2 powr real_of_int (52 + k + 1)"
  proof -
    have "real_of_int (2 ^ 53) = 2 powr real_of_int 53" using two_powr_nat[of 53] by simp
    then have "real_of_int (2 ^ 53) * 2 powr real_of_int k = 2 powr (real_of_int 53 + real_of_int k)"
      by (simp only: powr_add)
    also have "real_of_int 53 + real_of_int k = real_of_int (52 + k + 1)" by simp
    finally show ?thesis .
  qed
  finally have "\<bar>c\<bar> < 2 powr real_of_int (52 + k + 1)" .
  then have b: "binade c \<le> 52 + k" using binade_le_if[OF False, of "52 + k"] k by simp
  define j where "j = k - (binade c - 52)"
  have j: "0 \<le> j" using b by (simp add: j_def)
  have "2 powr real_of_int k = 2 powr (real_of_int j + real_of_int (binade c - 52))"
    by (simp add: j_def)
  also have "\<dots> = 2 powr real_of_int j * ulp_of c" by (simp only: powr_add ulp_of_def)
  also have "2 powr real_of_int j = real_of_int (2 ^ nat j)" using j by (rule two_powr_nat)
  finally have "c = real_of_int (m * 2 ^ nat j) * ulp_of c" unfolding c by simp
  then show ?thesis unfolding on_grid_def by blast
qed

lemma rounded_dyadic:
  assumes x: "x \<noteq> 0"
  shows "\<exists>m k. rounded x = real_of_int m * 2 powr real_of_int k \<and> \<bar>m\<bar> < 2 ^ 53 \<and> - 1074 \<le> k"
proof -
  define n where "n = round_half_even (x / ulp_of x)"
  define k where "k = binade x - 52"
  have k: "- 1074 \<le> k" using binade_ge[of x] by (simp add: k_def)
  have r: "rounded x = real_of_int n * 2 powr real_of_int k"
    by (simp add: rounded_def n_def k_def ulp_of_def mult.commute)
  have "\<bar>x\<bar> / ulp_of x \<le> 2 powr real_of_int (binade x + 1) / ulp_of x"
    using binade_upper[OF x] ulp_pos[of x] by (simp add: divide_right_mono)
  also have "\<dots> = real_of_int (2 ^ 53)" unfolding ulp_of_def by (rule two_powr_53)
  finally have ub: "\<bar>x\<bar> / ulp_of x \<le> real_of_int (2 ^ 53)" .
  have "x / ulp_of x \<le> \<bar>x\<bar> / ulp_of x" using ulp_pos[of x] by (simp add: divide_right_mono)
  then have "x / ulp_of x \<le> real_of_int (2 ^ 53)" using ub by linarith
  then have hi: "n \<le> 2 ^ 53" unfolding n_def by (rule rhe_le)
  have "- x \<le> \<bar>x\<bar>" by simp
  then have "(- x) / ulp_of x \<le> \<bar>x\<bar> / ulp_of x"
    using ulp_pos[of x] by (intro divide_right_mono) simp_all
  then have "- (x / ulp_of x) \<le> \<bar>x\<bar> / ulp_of x" by (simp only: minus_divide_left)
  then have "real_of_int (- (2 ^ 53)) \<le> x / ulp_of x" using ub by simp
  then have lo: "- (2 ^ 53) \<le> n" unfolding n_def by (rule rhe_ge)
  show ?thesis
  proof (cases "\<bar>n\<bar> < 2 ^ 53")
    case True
    then show ?thesis using r k by blast
  next
    case False
    then have nn: "n = 2 ^ 53 \<or> n = - (2 ^ 53)" using hi lo by linarith
    then have "real_of_int n = real_of_int (n div 2) * 2" by auto
    then have "rounded x = real_of_int (n div 2) * (2 powr 1 * 2 powr real_of_int k)"
      using r by simp
    also have "2 powr 1 * 2 powr real_of_int k = 2 powr real_of_int (k + 1)"
    proof -
      have "(2::real) powr 1 * 2 powr real_of_int k = 2 powr (1 + real_of_int k)"
        by (simp only: powr_add)
      also have "1 + real_of_int k = real_of_int (k + 1)" by simp
      finally show ?thesis .
    qed
    finally have "rounded x = real_of_int (n div 2) * 2 powr real_of_int (k + 1)" .
    moreover have "\<bar>n div 2\<bar> < 2 ^ 53" using nn by auto
    moreover have "- 1074 \<le> k + 1" using k by simp
    ultimately show ?thesis by blast
  qed
qed

lemma fl_representable: "fl x = Num r \<Longrightarrow> representable r"
proof (cases "x = 0")
  case True
  assume "fl x = Num r"
  then have "r = 0" using True by (simp add: fl_0)
  then show ?thesis by (simp add: representable_def on_grid_0)
next
  case False
  assume f: "fl x = Num r"
  then have r: "r = rounded x" "\<bar>rounded x\<bar> < 2 ^ 1024"
    using False by (auto simp: fl_rounded split: if_splits)
  obtain m k where "rounded x = real_of_int m * 2 powr real_of_int k" "\<bar>m\<bar> < 2 ^ 53" "- 1074 \<le> k"
    using rounded_dyadic[OF False] by blast
  then have "on_grid (rounded x)" by (rule dyadic_on_grid)
  then show ?thesis using r by (simp add: representable_def)
qed

lemma representable_int: "\<bar>m\<bar> < 2 ^ 53 \<Longrightarrow> representable (real_of_int m)"
proof -
  assume m: "\<bar>m\<bar> < 2 ^ 53"
  have "real_of_int m = real_of_int m * 2 powr real_of_int 0" by simp
  then have g: "on_grid (real_of_int m)" using m by (rule dyadic_on_grid) simp
  have "\<bar>real_of_int m\<bar> < real_of_int (2 ^ 53)" using m by (simp only: of_int_abs[symmetric] of_int_less_iff)
  also have "\<dots> < 2 ^ 1024" by simp
  finally show ?thesis using g by (simp add: representable_def)
qed

lemma representable_0: "representable 0"
  using representable_int[of 0] by simp

lemma representable_1: "representable 1"
  using representable_int[of 1] by simp

lemma representable_100: "representable 100"
  using representable_int[of 100] by simp

subsection \<open>Evaluating a rounding\<close>

lemma representable_scaled:
  assumes m: "\<bar>m\<bar> < 2 ^ 53" and b: "\<bar>real_of_int m * 2 ^ k\<bar> < 2 ^ 1024"
  shows "representable (real_of_int m * 2 ^ k)"
proof -
  have "(2::real) ^ k = 2 powr real_of_int (int k)" by (simp add: powr_realpow)
  then have "real_of_int m * 2 ^ k = real_of_int m * 2 powr real_of_int (int k)" by simp
  then have "on_grid (real_of_int m * 2 ^ k)" using m by (rule dyadic_on_grid) simp
  then show ?thesis using b by (simp add: representable_def)
qed

lemma representable_fraction:
  assumes m: "\<bar>m\<bar> < 2 ^ 53" and k: "k \<le> 1074"
  shows "representable (real_of_int m / 2 ^ k)"
proof -
  have "(2::real) powr real_of_int (- int k) = 1 / 2 ^ k"
    by (simp add: powr_minus powr_realpow divide_inverse)
  then have "real_of_int m / 2 ^ k = real_of_int m * 2 powr real_of_int (- int k)" by simp
  then have g: "on_grid (real_of_int m / 2 ^ k)" using m by (rule dyadic_on_grid) (use k in simp)
  have "\<bar>real_of_int m\<bar> < real_of_int (2 ^ 53)" using m by (simp only: of_int_abs[symmetric] of_int_less_iff)
  moreover have "\<bar>real_of_int m / 2 ^ k\<bar> \<le> \<bar>real_of_int m\<bar>"
    by (simp add: abs_divide divide_le_eq_1 field_simps) (simp add: mult_le_cancel_left1 flip: mult.commute)
  ultimately have "\<bar>real_of_int m / 2 ^ k\<bar> < 2 ^ 1024" by simp
  then show ?thesis using g by (simp add: representable_def)
qed

lemma fl_scaled: "\<bar>m\<bar> < 2 ^ 53 \<Longrightarrow> \<bar>real_of_int m * 2 ^ k\<bar> < 2 ^ 1024 \<Longrightarrow>
    fl (real_of_int m * 2 ^ k) = Num (real_of_int m * 2 ^ k)"
  by (rule fl_exact) (rule representable_scaled)

lemma fl_fraction: "\<bar>m\<bar> < 2 ^ 53 \<Longrightarrow> k \<le> 1074 \<Longrightarrow>
    fl (real_of_int m / 2 ^ k) = Num (real_of_int m / 2 ^ k)"
  by (rule fl_exact) (rule representable_fraction)

lemma fl_numeral: "(numeral n :: int) < 2 ^ 53 \<Longrightarrow> fl (numeral n) = Num (numeral n)"
  using fl_exact[OF representable_int[of "numeral n"]] by simp

lemma fl_1: "fl 1 = Num 1"
  using fl_exact[OF representable_1] .

lemma binade_when:
  assumes "2 powr real_of_int e \<le> \<bar>x\<bar>" "\<bar>x\<bar> < 2 powr real_of_int (e + 1)" "- 1022 \<le> e"
  shows "binade x = e"
proof -
  have "(0::real) < 2 powr real_of_int e" by simp
  then have x: "0 < \<bar>x\<bar>" using assms(1) by linarith
  have "\<lfloor>log 2 \<bar>x\<bar>\<rfloor> = e"
    using assms(1,2) x by (subst floor_log_eq_powr_iff) simp_all
  then show ?thesis using assms(3) by (simp add: binade_def)
qed

lemma fl_when:
  assumes "2 powr real_of_int e \<le> \<bar>x\<bar>" "\<bar>x\<bar> < 2 powr real_of_int (e + 1)" "- 1022 \<le> e"
    and "q = 2 powr real_of_int (e - 52)"
    and "r = q * real_of_int (round_half_even (x / q))"
  shows "fl x = (if \<bar>r\<bar> \<ge> 2 ^ 1024 then (if x > 0 then PInf else NInf) else Num r)"
proof -
  have "(0::real) < 2 powr real_of_int e" by simp
  then have x: "x \<noteq> 0" using assms(1) by linarith
  show ?thesis using x binade_when[OF assms(1-3)] assms(4,5) by (simp add: fl_def Let_def)
qed

lemma two_powr_neg_numeral: "(2::real) powr (- numeral n) = 1 / 2 ^ numeral n"
proof -
  have "(2::real) powr (- numeral n) = 1 / 2 powr numeral n" by (rule powr_minus_divide)
  also have "(2::real) powr numeral n = 2 ^ numeral n" by (rule powr_numeral) simp
  finally show ?thesis .
qed

lemma two_powr_neg_one: "(2::real) powr (- 1) = 1 / 2"
proof -
  have "(2::real) powr (- 1) = 1 / 2 powr 1" by (rule powr_minus_divide)
  then show ?thesis by simp
qed

subsection \<open>The values of calculateRSI on doubles\<close>

lemma nn_fl: "0 \<le> x \<Longrightarrow> nn (fl x)"
  using fl_nonneg[of x] by (auto simp: nn_def)

lemma nn_fadd: "nn a \<Longrightarrow> nn b \<Longrightarrow> nn (fadd a b)"
  by (cases a; cases b) (simp_all add: nn_def nn_fl[unfolded nn_def])

lemma nn_fmul: "nn a \<Longrightarrow> nn b \<Longrightarrow> nn (fmul a b)"
  by (cases a; cases b) (simp_all add: nn_def nn_fl[unfolded nn_def])

lemma nn_fdiv: "nn a \<Longrightarrow> nn b \<Longrightarrow> nn (fdiv a b)"
  by (cases a; cases b) (simp_all add: nn_def nn_fl[unfolded nn_def])

lemma nn_fsqrt: "nn a \<Longrightarrow> nn (fsqrt a)"
  by (cases a) (simp_all add: nn_def nn_fl[unfolded nn_def])

lemma nn_Num: "0 \<le> r \<Longrightarrow> nn (Num r)"
  by (simp add: nn_def)

lemma nn_gain: "nn (if fgt c (Num 0) then c else Num 0)"
  by (cases c) (simp_all add: nn_def fgt_def)

lemma nn_loss: "nn (if flt c (Num 0) then fabs c else Num 0)"
  by (cases c) (simp_all add: nn_def)

lemma nn_gains: "g \<in> set (gains_ieee cs) \<Longrightarrow> nn g"
proof -
  assume "g \<in> set (gains_ieee cs)"
  then have "g \<in> (\<lambda>c. if fgt c (Num 0) then c else Num 0) ` set cs"
    by (simp only: gains_ieee_def set_map)
  then show ?thesis
  proof (rule imageE)
    fix c assume "g = (if fgt c (Num 0) then c else Num 0)"
    then show "nn g" by (simp only: nn_gain)
  qed
qed

lemma nn_losses: "l \<in> set (losses_ieee cs) \<Longrightarrow> nn l"
proof -
  assume "l \<in> set (losses_ieee cs)"
  then have "l \<in> (\<lambda>c. if flt c (Num 0) then fabs c else Num 0) ` set cs"
    by (simp only: losses_ieee_def set_map)
  then show ?thesis
  proof (rule imageE)
    fix c assume "l = (if flt c (Num 0) then fabs c else Num 0)"
    then show "nn l" by (simp only: nn_loss)
  qed
qed

lemma nn_reduce_acc: "nn a \<Longrightarrow> (\<And>x. x \<in> set xs \<Longrightarrow> nn x) \<Longrightarrow> nn (foldl (\<lambda>a b. fadd a b) a xs)"
  by (induction xs arbitrary: a) (simp_all add: nn_fadd)

lemma nn_reduce: "(\<And>x. x \<in> set xs \<Longrightarrow> nn x) \<Longrightarrow> nn (reduce_fadd xs)"
  unfolding reduce_fadd_def by (rule nn_reduce_acc) (simp_all add: nn_def)

lemma rsi_value_in_range:
  assumes g: "nn g" and l: "nn l"
  shows "in_range (rsi_value_ieee g l)"
proof (cases "feq l (Num 0)")
  case True
  then show ?thesis by (simp add: rsi_value_ieee_def in_range_def)
next
  case False
  define rs where "rs = fdiv g l"
  define x where "x = fadd (Num 1) rs"
  define y where "y = fdiv (Num 100) x"
  have v: "rsi_value_ieee g l = fsub (Num 100) y"
    using False by (simp add: rsi_value_ieee_def rs_def x_def y_def Let_def)
  have rs: "nn rs" unfolding rs_def using g l by (rule nn_fdiv)
  have x: "x = Nan \<or> x = PInf \<or> (\<exists>r. x = Num r \<and> 1 \<le> r)"
  proof (cases rs)
    case (Num s)
    then have "0 \<le> s" using rs by (simp add: nn_def)
    then have "1 \<le> 1 + s" by simp
    from fl_ge[OF representable_1 this] show ?thesis by (simp add: x_def Num)
  qed (use rs in \<open>simp_all add: x_def nn_def\<close>)
  have y: "y = Nan \<or> (\<exists>t. y = Num t \<and> 0 \<le> t \<and> t \<le> 100)"
    using x
  proof (elim disjE exE conjE)
    fix r assume r: "x = Num r" "1 \<le> r"
    then have "0 \<le> 100 / r" "100 / r \<le> 100" by (simp_all add: field_simps)
    from fl_between[OF representable_0 representable_100 this] show ?thesis
      using r by (simp add: y_def)
  qed (simp_all add: y_def)
  show ?thesis
    using y
  proof (elim disjE exE conjE)
    fix t assume t: "y = Num t" "0 \<le> t" "t \<le> 100"
    then have "0 \<le> 100 + - t" "100 + - t \<le> 100" by simp_all
    from fl_between[OF representable_0 representable_100 this] show ?thesis
      using t by (auto simp: v fsub_def in_range_def)
  qed (simp add: v fsub_def in_range_def)
qed

lemma nn_smooth:
  assumes p: "0 < period" and a: "nn a" and x: "nn x"
  shows "nn (fdiv (fadd (fmul a (fsub (Num (real period)) (Num 1))) x) (Num (real period)))"
proof -
  have "0 \<le> real period + - 1" using p by simp
  then have "nn (fsub (Num (real period)) (Num 1))" by (simp add: fsub_def nn_fl)
  then show ?thesis using a x by (intro nn_fdiv nn_fadd nn_fmul nn_Num) simp_all
qed

lemma rsi_loop_in_range:
  assumes p: "0 < period"
  shows "nn g \<Longrightarrow> nn l \<Longrightarrow> (\<And>a b. (a, b) \<in> set xs \<Longrightarrow> nn a \<and> nn b) \<Longrightarrow>
         v \<in> set (rsi_loop_ieee period g l xs) \<Longrightarrow> in_range v"
proof (induction xs arbitrary: g l)
  case Nil
  then show ?case by simp
next
  case (Cons x xs)
  obtain a b where x: "x = (a, b)" by (cases x)
  have ab: "nn a" "nn b" using Cons.prems(3)[of a b] x by simp_all
  define g' where "g' = fdiv (fadd (fmul g (fsub (Num (real period)) (Num 1))) a) (Num (real period))"
  define l' where "l' = fdiv (fadd (fmul l (fsub (Num (real period)) (Num 1))) b) (Num (real period))"
  have g': "nn g'" unfolding g'_def using nn_smooth[OF p Cons.prems(1) ab(1)] .
  have l': "nn l'" unfolding l'_def using nn_smooth[OF p Cons.prems(2) ab(2)] .
  from Cons.prems(4) x have "v = rsi_value_ieee g' l' \<or> v \<in> set (rsi_loop_ieee period g' l' xs)"
    by (simp add: Let_def g'_def l'_def)
  then show ?case
  proof
    assume "v = rsi_value_ieee g' l'"
    then show ?thesis using rsi_value_in_range[OF g' l'] by simp
  next
    assume "v \<in> set (rsi_loop_ieee period g' l' xs)"
    then show ?thesis using Cons.IH[OF g' l'] Cons.prems(3) by auto
  qed
qed

lemma rsi_loop_zero_period:
  "v \<in> set (rsi_loop_ieee 0 Nan Nan xs) \<Longrightarrow> v = Nan"
proof (induction xs)
  case Nil
  then show ?case by simp
next
  case (Cons x xs)
  obtain a b where x: "x = (a, b)" by (cases x)
  have s: "rsi_loop_ieee 0 Nan Nan (x # xs) = Nan # rsi_loop_ieee 0 Nan Nan xs"
    by (simp add: x Let_def rsi_value_ieee_def fsub_def)
  show ?case using Cons s by auto
qed

lemma length_rsi_loop_ieee: "length (rsi_loop_ieee p g l xs) = length xs"
  by (induction xs arbitrary: g l) (auto simp: Let_def)

lemma reduce_zeros_acc: "(\<And>x. x \<in> set xs \<Longrightarrow> x = Num 0) \<Longrightarrow> foldl (\<lambda>a b. fadd a b) (Num 0) xs = Num 0"
proof (induction xs)
  case Nil
  then show ?case by simp
next
  case (Cons a xs)
  have a: "a = Num 0" using Cons.prems by simp
  have "foldl (\<lambda>a b. fadd a b) (Num 0) xs = Num 0" using Cons.IH Cons.prems by simp
  then show ?case by (simp add: a fl_0)
qed

lemma calculateRSI_ieee_props:
  assumes len: "period + 1 \<le> length closes"
  shows "\<exists>rs. calculateRSI_ieee closes period = Inr rs
           \<and> length rs = length closes - period
           \<and> (\<forall>v \<in> set rs. in_range v)
           \<and> (0 < period \<longrightarrow>
                (\<forall>l \<in> set (take period (losses_ieee (price_changes_ieee closes))). l = Num 0) \<longrightarrow>
                hd rs = Num 100)"
proof -
  define gs where "gs = gains_ieee (price_changes_ieee closes)"
  define ls where "ls = losses_ieee (price_changes_ieee closes)"
  define g where "g = fdiv (reduce_fadd (take period gs)) (Num (real period))"
  define l where "l = fdiv (reduce_fadd (take period ls)) (Num (real period))"
  define rest where "rest = zip (drop period gs) (drop period ls)"
  define rs where "rs = rsi_value_ieee g l # rsi_loop_ieee period g l rest"
  have eq: "calculateRSI_ieee closes period = Inr rs"
    using len by (simp add: calculateRSI_ieee_def Let_def slice_def rs_def g_def l_def rest_def gs_def ls_def)
  have lens: "length gs = length closes - 1" "length ls = length closes - 1"
    by (simp_all add: gs_def ls_def gains_ieee_def losses_ieee_def price_changes_ieee_def)
  have lrs: "length rs = length closes - period"
    using len by (simp add: rs_def rest_def length_rsi_loop_ieee lens)
  have range: "\<forall>v \<in> set rs. in_range v"
  proof (cases "period = 0")
    case True
    have "reduce_fadd [] = Num 0" by (simp add: reduce_fadd_def)
    then have gl: "g = Nan" "l = Nan" by (simp_all add: g_def l_def True)
    have "rsi_value_ieee Nan Nan = Nan" by (simp add: rsi_value_ieee_def fsub_def)
    then have "\<And>v. v \<in> set rs \<Longrightarrow> v = Nan"
      using rsi_loop_zero_period[of _ rest] by (auto simp: rs_def gl True)
    moreover have "in_range Nan" by (simp add: in_range_def)
    ultimately show ?thesis by metis
  next
    case False
    then have p: "0 < period" by simp
    have "\<And>x. x \<in> set (take period gs) \<Longrightarrow> nn x"
      unfolding gs_def using nn_gains in_set_takeD by metis
    then have g0: "nn g" unfolding g_def by (intro nn_fdiv nn_reduce nn_Num) simp_all
    have "\<And>x. x \<in> set (take period ls) \<Longrightarrow> nn x"
      unfolding ls_def using nn_losses in_set_takeD by metis
    then have l0: "nn l" unfolding l_def by (intro nn_fdiv nn_reduce nn_Num) simp_all
    have r: "\<And>a b. (a, b) \<in> set rest \<Longrightarrow> nn a \<and> nn b"
      unfolding rest_def gs_def ls_def
      using nn_gains nn_losses by (meson in_set_dropD set_zip_leftD set_zip_rightD)
    show ?thesis
      using rsi_value_in_range[OF g0 l0] rsi_loop_in_range[OF p g0 l0 r] by (auto simp: rs_def)
  qed
  have first: "hd rs = Num 100"
    if p: "0 < period" and z: "\<forall>l \<in> set (take period ls). l = Num 0"
  proof -
    have "reduce_fadd (take period ls) = Num 0"
      unfolding reduce_fadd_def using z by (intro reduce_zeros_acc) simp
    then have "l = Num 0" using p by (simp add: l_def fl_0)
    then show ?thesis by (simp add: rs_def rsi_value_ieee_def)
  qed
  show ?thesis using eq lrs range first unfolding ls_def by blast
qed

subsection \<open>The values of calculateBollingerBands on doubles\<close>

lemma fdiv_result: "finite_or_inf (fdiv a b)"
proof (cases a; cases b)
  fix x y assume "a = Num x" "b = Num y"
  then show ?thesis
    using fl_representable[of "x / y"] representable_0
    by (cases "fl (x / y)") (auto simp: finite_or_inf_def)
qed (auto simp: finite_or_inf_def representable_0)

lemma nn_square: "nn (fmul d d)"
  by (cases d) (simp_all add: nn_def nn_fl[unfolded nn_def])

lemma nn_variance: "nn (population_variance_ieee xs m)"
  unfolding population_variance_ieee_def
  by (intro nn_fdiv nn_reduce nn_Num) (auto simp: nn_square)

lemma fadd_nn_ge:
  assumes m: "finite_or_inf m" and t: "nn t"
  shows "fadd m t = Nan \<or> fle m (fadd m t)"
proof (cases m)
  case (Num a)
  then have ra: "representable a" using m by (simp add: finite_or_inf_def)
  show ?thesis
  proof (cases t)
    case (Num b)
    then have "a \<le> a + b" using t by (simp add: nn_def)
    from fl_ge[OF ra this] show ?thesis using \<open>m = Num a\<close> Num by auto
  qed (use t Num in \<open>simp_all add: nn_def\<close>)
next
  case PInf
  then show ?thesis using t by (cases t) (simp_all add: nn_def)
next
  case NInf
  then show ?thesis using t by (cases t) (simp_all add: nn_def)
next
  case Nan
  then show ?thesis by simp
qed

lemma fsub_nn_le:
  assumes m: "finite_or_inf m" and t: "nn t"
  shows "fsub m t = Nan \<or> fle (fsub m t) m"
proof (cases m)
  case (Num a)
  then have ra: "representable a" using m by (simp add: finite_or_inf_def)
  show ?thesis
  proof (cases t)
    case (Num b)
    then have "a + - b \<le> a" using t by (simp add: nn_def)
    from fl_le[OF ra this] show ?thesis using \<open>m = Num a\<close> Num by (auto simp: fsub_def)
  qed (use t Num in \<open>simp_all add: nn_def fsub_def\<close>)
next
  case PInf
  then show ?thesis using t by (cases t) (simp_all add: nn_def fsub_def)
next
  case NInf
  then show ?thesis using t by (cases t) (simp_all add: nn_def fsub_def)
next
  case Nan
  then show ?thesis by (simp add: fsub_def)
qed

lemma fadd_zero: "finite_or_inf m \<Longrightarrow> fadd m (Num 0) = m"
  by (cases m) (simp_all add: finite_or_inf_def fl_exact)

lemma fsub_zero: "finite_or_inf m \<Longrightarrow> fsub m (Num 0) = m"
  by (cases m) (simp_all add: finite_or_inf_def fl_exact fsub_def)

lemma two_sqrt_zero: "fmul (Num 2) (fsqrt (Num 0)) = Num 0"
  by (simp add: fl_0)

lemma length_window_ieee: "i + period \<le> length prices \<Longrightarrow> length (window_ieee prices period i) = period"
  by (simp add: window_ieee_def)

lemma calculateSMA_ieee_nth:
  assumes len: "period \<le> length prices"
  shows "\<exists>ss. calculateSMA_ieee prices period = Inr ss \<and> length ss = length prices - period + 1
     \<and> (\<forall>j < length ss. ss ! j = mean_ieee (window_ieee prices period j))"
proof -
  let ?f = "\<lambda>i. fdiv (reduce_fadd (slice prices (nat (i - int period + 1)) (nat (i + 1))))
                             (Num (real period))"
  let ?ss = "map ?f [int period - 1..int (length prices) - 1]"
  have eq: "calculateSMA_ieee prices period = Inr ?ss" using len by (simp add: calculateSMA_ieee_def)
  have l: "length ?ss = length prices - period + 1" using len by simp
  have "?ss ! j = mean_ieee (window_ieee prices period j)" if j: "j < length ?ss" for j
  proof -
    have jl: "j + period \<le> length prices" using j len by simp
    have "int period - 1 + int j \<le> int (length prices) - 1" using jl by simp
    then have "[int period - 1..int (length prices) - 1] ! j = int period - 1 + int j"
      by (rule nth_upto)
    then have "?ss ! j = ?f (int period - 1 + int j)" using j by simp
    moreover have "nat (int period - 1 + int j - int period + 1) = j"
        "nat (int period - 1 + int j + 1) = j + period" by simp_all
    ultimately have "?ss ! j = fdiv (reduce_fadd (slice prices j (j + period))) (Num (real period))"
      by simp
    then show ?thesis
      using length_window_ieee[OF jl] by (simp add: mean_ieee_def window_ieee_def slice_def)
  qed
  then show ?thesis using eq l by blast
qed

lemma band_at_ieee_window:
  assumes "i + period \<le> length prices"
  shows "band_at_ieee prices period k ms i =
           (fadd (ms ! i) (fmul k (fsqrt (population_variance_ieee (window_ieee prices period i) (ms ! i)))),
            fsub (ms ! i) (fmul k (fsqrt (population_variance_ieee (window_ieee prices period i) (ms ! i)))))"
proof -
  have s: "slice prices i (i + period) = window_ieee prices period i"
    by (simp add: slice_def window_ieee_def)
  show ?thesis
    using length_window_ieee[OF assms]
    by (simp add: band_at_ieee_def Let_def s population_variance_ieee_def)
qed

lemma calculateBollingerBands_ieee_props:
  assumes len: "period \<le> length prices"
  shows "\<exists>bb. calculateBollingerBands_ieee prices period (Num 2) = Inr bb
          \<and> length (middle bb) = length prices - period + 1
          \<and> length (upper bb) = length prices - period + 1
          \<and> length (lower bb) = length prices - period + 1
          \<and> (\<forall>i < length prices - period + 1.
                middle bb ! i = mean_ieee (window_ieee prices period i)
              \<and> upper bb ! i = fadd (middle bb ! i) (fmul (Num 2) (fsqrt
                    (population_variance_ieee (window_ieee prices period i) (middle bb ! i))))
              \<and> lower bb ! i = fsub (middle bb ! i) (fmul (Num 2) (fsqrt
                    (population_variance_ieee (window_ieee prices period i) (middle bb ! i))))
              \<and> (upper bb ! i = Nan \<or> fle (middle bb ! i) (upper bb ! i))
              \<and> (lower bb ! i = Nan \<or> fle (lower bb ! i) (middle bb ! i))
              \<and> (population_variance_ieee (window_ieee prices period i) (middle bb ! i) = Num 0
                   \<longrightarrow> lower bb ! i = middle bb ! i \<and> upper bb ! i = middle bb ! i))"
proof -
  obtain ss where ss: "calculateSMA_ieee prices period = Inr ss"
      "length ss = length prices - period + 1"
      "\<forall>j < length ss. ss ! j = mean_ieee (window_ieee prices period j)"
    using calculateSMA_ieee_nth[OF len] by blast
  define both where "both = map (band_at_ieee prices period (Num 2) ss) [0..<length ss]"
  define bb where "bb = \<lparr>upper = map fst both, middle = ss, lower = map snd both\<rparr>"
  have eq: "calculateBollingerBands_ieee prices period (Num 2) = Inr bb"
    using len ss(1) by (simp add: calculateBollingerBands_ieee_def Let_def bb_def both_def)
  have lens: "length (middle bb) = length prices - period + 1"
       "length (upper bb) = length prices - period + 1"
       "length (lower bb) = length prices - period + 1"
    using ss(2) by (simp_all add: bb_def both_def)
  have at: "middle bb ! i = mean_ieee (window_ieee prices period i)
          \<and> upper bb ! i = fadd (middle bb ! i) (fmul (Num 2) (fsqrt
                (population_variance_ieee (window_ieee prices period i) (middle bb ! i))))
          \<and> lower bb ! i = fsub (middle bb ! i) (fmul (Num 2) (fsqrt
                (population_variance_ieee (window_ieee prices period i) (middle bb ! i))))
          \<and> (upper bb ! i = Nan \<or> fle (middle bb ! i) (upper bb ! i))
          \<and> (lower bb ! i = Nan \<or> fle (lower bb ! i) (middle bb ! i))
          \<and> (population_variance_ieee (window_ieee prices period i) (middle bb ! i) = Num 0
               \<longrightarrow> lower bb ! i = middle bb ! i \<and> upper bb ! i = middle bb ! i)"
    if i: "i < length prices - period + 1" for i
  proof -
    define m where "m = ss ! i"
    define v where "v = population_variance_ieee (window_ieee prices period i) m"
    define t where "t = fmul (Num 2) (fsqrt v)"
    have il: "i < length ss" using i ss(2) by simp
    have ip: "i + period \<le> length prices" using i len by linarith
    have mm: "m = mean_ieee (window_ieee prices period i)" using ss(3) il by (simp add: m_def)
    have fm: "finite_or_inf m" unfolding mm mean_ieee_def by (rule fdiv_result)
    have nt: "nn t" unfolding t_def v_def by (intro nn_fmul nn_fsqrt nn_variance nn_Num) simp
    have "both ! i = band_at_ieee prices period (Num 2) ss i" using il by (simp add: both_def)
    then have b: "both ! i = (fadd m t, fsub m t)"
      using band_at_ieee_window[OF ip, of "Num 2" ss] by (simp add: m_def t_def v_def)
    have u: "upper bb ! i = fadd m t" and lo: "lower bb ! i = fsub m t" and mi: "middle bb ! i = m"
      using b il by (simp_all add: bb_def both_def m_def)
    have z: "fsub m t = m \<and> fadd m t = m" if "v = Num 0"
      using that fadd_zero[OF fm] fsub_zero[OF fm] two_sqrt_zero by (simp add: t_def)
    show ?thesis
      unfolding mi u lo v_def[symmetric] t_def[symmetric]
      using mm[symmetric] fadd_nn_ge[OF fm nt] fsub_nn_le[OF fm nt] z by simp
  qed
  show ?thesis using eq lens at by blast
qed

text \<open>Both models raise on the same lengths.\<close>

lemma calculateRSI_ieee_raises:
  "calculateRSI_ieee closes period = Inl InsufficientData \<longleftrightarrow> length closes < period + 1"
  by (simp add: calculateRSI_ieee_def Let_def)

lemma calculateBollingerBands_ieee_raises:
  "calculateBollingerBands_ieee prices period k = Inl InsufficientData \<longleftrightarrow> length prices < period"
  by (simp add: calculateBollingerBands_ieee_def calculateSMA_ieee_def Let_def)

section \<open>The indicator engine: claims\<close>

text \<open>
  C1 (as amended). For at least \<open>period + 1\<close> closes, \<open>calculateRSI\<close> returns
  \<open>length closes - period\<close> values, and every one of them is a number in \<open>[0, 100]\<close> or is
  \<open>NaN\<close>; for a period of at least 1, the first value is exactly 100 whenever all losses of
  the initial window (the first \<open>period\<close> deltas) are zero. The values are those of the
  double-precision model.
\<close>

theorem calculateRSI_ieee_range_and_first_value:
  assumes "period + 1 \<le> length closes"
  shows "\<exists>rs. calculateRSI_ieee closes period = Inr rs
           \<and> length rs = length closes - period
           \<and> (\<forall>v \<in> set rs. v = Nan \<or> (\<exists>r. v = Num r \<and> 0 \<le> r \<and> r \<le> 100))
           \<and> (0 < period \<longrightarrow>
                (\<forall>l \<in> set (take period (losses_ieee (price_changes_ieee closes))). l = Num 0) \<longrightarrow>
                hd rs = Num 100)"
proof -
  obtain rs where rs: "calculateRSI_ieee closes period = Inr rs"
      "length rs = length closes - period"
      "\<forall>v \<in> set rs. in_range v"
      "0 < period \<longrightarrow>
         (\<forall>l \<in> set (take period (losses_ieee (price_changes_ieee closes))). l = Num 0) \<longrightarrow>
         hd rs = Num 100"
    using calculateRSI_ieee_props[OF assms] by blast
  have "v = Nan \<or> (\<exists>r. v = Num r \<and> 0 \<le> r \<and> r \<le> 100)" if "v \<in> set rs" for v
    using rs(3) that by (cases v) (auto simp: in_range_def)
  then show ?thesis using rs(1,2,4) by blast
qed

text \<open>
  The statement at period 2 on the closes 1, 2, 4 (no loss in the initial window: the
  value is 100) and on the closes 2, 1, 4, 4 (a loss in it: both values are 75).
\<close>

theorem calculateRSI_ieee_range_and_first_value_witness:
  "2 + 1 \<le> length [Num 1, Num 2, Num 4] \<and> (0::nat) < 2
   \<and> calculateRSI_ieee [Num 1, Num 2, Num 4] 2 = Inr [Num 100]
   \<and> take 2 (losses_ieee (price_changes_ieee [Num 1, Num 2, Num 4])) = [Num 0, Num 0]
   \<and> 2 + 1 \<le> length [Num 2, Num 1, Num 4, Num 4]
   \<and> calculateRSI_ieee [Num 2, Num 1, Num 4, Num 4] 2 = Inr [Num 75, Num 75]
   \<and> take 2 (losses_ieee (price_changes_ieee [Num 2, Num 1, Num 4, Num 4])) = [Num 1, Num 0]"
proof -
  have f1: "fl 1 = Num 1"
    using fl_fraction[of 1 0] by simp
  have f2: "fl 2 = Num 2"
    using fl_fraction[of 2 0] by simp
  have f3: "fl 3 = Num 3"
    using fl_fraction[of 3 0] by simp
  have f4: "fl (3 / 2) = Num (3 / 2)"
    using fl_fraction[of 3 1] by simp
  have f5: "fl (1 / 2) = Num (1 / 2)"
    using fl_fraction[of 1 1] by simp
  have f6: "fl 4 = Num 4"
    using fl_fraction[of 4 0] by simp
  have f7: "fl 25 = Num 25"
    using fl_fraction[of 25 0] by simp
  have f8: "fl 75 = Num 75"
    using fl_fraction[of 75 0] by simp
  have f9: "fl (3 / 4) = Num (3 / 4)"
    using fl_fraction[of 3 2] by simp
  have f10: "fl (1 / 4) = Num (1 / 4)"
    using fl_fraction[of 1 2] by simp
  show ?thesis
    using calculateRSI_ieee_range_and_first_value[of 2 "[Num 1, Num 2, Num 4]"]
          calculateRSI_ieee_range_and_first_value[of 2 "[Num 2, Num 1, Num 4, Num 4]"]
    by (simp add: calculateRSI_ieee_def price_changes_ieee_def gains_ieee_def losses_ieee_def
          reduce_fadd_def slice_def rsi_value_ieee_def fsub_def fgt_def Let_def upt_rec fl_0 fl_minus
          f1 f2 f3 f4 f5 f6 f7 f8 f9 f10)
qed

text \<open>
  C1 as stated fails for the values after the first: on the closes 1, 2, 3, 2 with period 2
  both losses of the initial window are zero, and the second value returned is 50.
\<close>

theorem calculateRSI_ieee_later_value_counterexample:
  "calculateRSI_ieee [Num 1, Num 2, Num 3, Num 2] 2 = Inr [Num 100, Num 50]
   \<and> take 2 (losses_ieee (price_changes_ieee [Num 1, Num 2, Num 3, Num 2])) = [Num 0, Num 0]"
proof -
  have f1: "fl 1 = Num 1"
    using fl_fraction[of 1 0] by simp
  have f2: "fl 2 = Num 2"
    using fl_fraction[of 2 0] by simp
  have f3: "fl (1 / 2) = Num (1 / 2)"
    using fl_fraction[of 1 1] by simp
  have f4: "fl 50 = Num 50"
    using fl_fraction[of 50 0] by simp
  show ?thesis
    by (simp add: calculateRSI_ieee_def price_changes_ieee_def gains_ieee_def losses_ieee_def
          reduce_fadd_def slice_def rsi_value_ieee_def fsub_def fgt_def Let_def upt_rec fl_0 fl_minus
          f1 f2 f3 f4)
qed

text \<open>
  The converse of the amended statement does not hold, and \<open>NaN\<close> does occur. On the closes
  1, 0, \<open>10 ^ 20\<close> with period 2 the initial window has a loss and the value returned is
  exactly 100: \<open>1 + rs\<close> and \<open>100 - 100 / (1 + rs)\<close> round. On the closes
  0, \<open>2 ^ 1023\<close>, 0, \<open>2 ^ 1023\<close>, 0 with period 4 both sums overflow and the value returned
  is \<open>NaN\<close>.
\<close>

lemma calculateRSI_ieee_hundred_despite_loss:
  "calculateRSI_ieee [Num 1, Num 0, Num 100000000000000000000] 2 = Inr [Num 100]
   \<and> take 2 (losses_ieee (price_changes_ieee [Num 1, Num 0, Num 100000000000000000000])) = [Num 1, Num 0]"
proof -
  have f1: "fl 1 = Num 1"
    using fl_fraction[of 1 0] by simp
  have f2: "fl 100000000000000000000 = Num 100000000000000000000"
    using fl_scaled[of 95367431640625 20] by simp
  have f3: "fl 50000000000000000000 = Num 50000000000000000000"
    using fl_scaled[of 95367431640625 19] by simp
  have f4: "fl (1 / 2) = Num (1 / 2)"
    using fl_fraction[of 1 1] by simp
  have f5: "fl 100000000000000000001 = Num 100000000000000000000"
    by (subst fl_when[of "66" _ "16384" "100000000000000000000"])
       (simp_all add: round_half_even_def two_powr_neg_numeral two_powr_neg_one)
  have f6: "fl (1 / 1000000000000000000) = Num (1298074214633707 / 1298074214633706907132624082305024)"
    by (subst fl_when[of "-60" _ "1 / 5192296858534827628530496329220096" "1298074214633707 / 1298074214633706907132624082305024"])
       (simp_all add: round_half_even_def two_powr_neg_numeral two_powr_neg_one)
  have f7: "fl (129807421463370690711964334015868693 / 1298074214633706907132624082305024) = Num 100"
    by (subst fl_when[of "6" _ "1 / 70368744177664" "100"])
       (simp_all add: round_half_even_def two_powr_neg_numeral two_powr_neg_one)
  show ?thesis
    by (simp add: calculateRSI_ieee_def price_changes_ieee_def gains_ieee_def losses_ieee_def
          reduce_fadd_def slice_def rsi_value_ieee_def fsub_def fgt_def Let_def upt_rec fl_0 fl_minus
          f1 f2 f3 f4 f5 f6 f7)
qed

lemma calculateRSI_ieee_overflow:
  "calculateRSI_ieee [Num 0, Num 89884656743115795386465259539451236680898848947115328636715040578866337902750481566354238661203768010560056939935696678829394884407208311246423715319737062188883946712432742638151109800623047059726541476042502884419075341171231440736956555270413618581675255342293149119973622969239858152417678164812112068608, Num 0, Num 89884656743115795386465259539451236680898848947115328636715040578866337902750481566354238661203768010560056939935696678829394884407208311246423715319737062188883946712432742638151109800623047059726541476042502884419075341171231440736956555270413618581675255342293149119973622969239858152417678164812112068608, Num 0] 4 = Inr [Nan]
   \<and> take 4 (losses_ieee (price_changes_ieee [Num 0, Num 89884656743115795386465259539451236680898848947115328636715040578866337902750481566354238661203768010560056939935696678829394884407208311246423715319737062188883946712432742638151109800623047059726541476042502884419075341171231440736956555270413618581675255342293149119973622969239858152417678164812112068608, Num 0, Num 89884656743115795386465259539451236680898848947115328636715040578866337902750481566354238661203768010560056939935696678829394884407208311246423715319737062188883946712432742638151109800623047059726541476042502884419075341171231440736956555270413618581675255342293149119973622969239858152417678164812112068608, Num 0])) = [Num 0, Num 89884656743115795386465259539451236680898848947115328636715040578866337902750481566354238661203768010560056939935696678829394884407208311246423715319737062188883946712432742638151109800623047059726541476042502884419075341171231440736956555270413618581675255342293149119973622969239858152417678164812112068608, Num 0, Num 89884656743115795386465259539451236680898848947115328636715040578866337902750481566354238661203768010560056939935696678829394884407208311246423715319737062188883946712432742638151109800623047059726541476042502884419075341171231440736956555270413618581675255342293149119973622969239858152417678164812112068608]"
proof -
  have f1: "fl 89884656743115795386465259539451236680898848947115328636715040578866337902750481566354238661203768010560056939935696678829394884407208311246423715319737062188883946712432742638151109800623047059726541476042502884419075341171231440736956555270413618581675255342293149119973622969239858152417678164812112068608 = Num 89884656743115795386465259539451236680898848947115328636715040578866337902750481566354238661203768010560056939935696678829394884407208311246423715319737062188883946712432742638151109800623047059726541476042502884419075341171231440736956555270413618581675255342293149119973622969239858152417678164812112068608"
    using fl_scaled[of 1 1023] by simp
  have f2: "fl 179769313486231590772930519078902473361797697894230657273430081157732675805500963132708477322407536021120113879871393357658789768814416622492847430639474124377767893424865485276302219601246094119453082952085005768838150682342462881473913110540827237163350510684586298239947245938479716304835356329624224137216 = PInf"
    by (subst fl_when[of "1024" _ "39916806190694396233127454260736771321349025208709150830050944848744237837379281315699159309852714021786848936883849904879448759767871873214783435965696628406400113459021713530350754428887259743653067134890878479866616209102417407777777105368960883150142418137515120832847169904606880198557696" "179769313486231590772930519078902473361797697894230657273430081157732675805500963132708477322407536021120113879871393357658789768814416622492847430639474124377767893424865485276302219601246094119453082952085005768838150682342462881473913110540827237163350510684586298239947245938479716304835356329624224137216"])
       (simp_all add: round_half_even_def two_powr_neg_numeral two_powr_neg_one)
  show ?thesis
    by (simp add: calculateRSI_ieee_def price_changes_ieee_def gains_ieee_def losses_ieee_def
          reduce_fadd_def slice_def rsi_value_ieee_def fsub_def fgt_def Let_def upt_rec fl_0 fl_minus
          f1 f2)
qed

text \<open>
  C4 (as amended). \<open>calculateMACD\<close> raises \<open>InsufficientData\<close> exactly when there are
  fewer than \<open>slow + signal\<close> closes or fewer than \<open>fast\<close> closes (the second case is the
  error of the fast EMA); when \<open>fast \<le> slow + signal\<close> that is exactly when there are
  fewer than \<open>slow + signal\<close> closes. With the defaults (12, 26, 9) it raises exactly below
  35 closes and returns a result exactly from 35 closes on.
\<close>

theorem calculateMACD_insufficient_iff:
  "(calculateMACD closes fast slow signal = Inl InsufficientData
      \<longleftrightarrow> length closes < slow + signal \<or> length closes < fast)
   \<and> (fast \<le> slow + signal \<longrightarrow>
        (calculateMACD closes fast slow signal = Inl InsufficientData
           \<longleftrightarrow> length closes < slow + signal))
   \<and> (calculateMACD closes 12 26 9 = Inl InsufficientData \<longleftrightarrow> length closes < 35)
   \<and> ((\<exists>r. calculateMACD closes 12 26 9 = Inr r) \<longleftrightarrow> 35 \<le> length closes)"
proof -
  have a: "calculateMACD closes fast slow signal = Inl InsufficientData
      \<longleftrightarrow> length closes < slow + signal \<or> length closes < fast"
    by (rule calculateMACD_raises)
  have b: "calculateMACD closes 12 26 9 = Inl InsufficientData \<longleftrightarrow> length closes < 35"
    by (simp add: calculateMACD_raises) linarith
  have c: "(\<exists>r. calculateMACD closes 12 26 9 = Inr r) \<longleftrightarrow> 35 \<le> length closes"
  proof
    assume "\<exists>r. calculateMACD closes 12 26 9 = Inr r"
    then have "calculateMACD closes 12 26 9 \<noteq> Inl InsufficientData" by auto
    then show "35 \<le> length closes" using b by simp
  next
    assume "35 \<le> length closes"
    then show "\<exists>r. calculateMACD closes 12 26 9 = Inr r"
      using calculateMACD_ok[of 12 26 9 closes] by auto
  qed
  show ?thesis using a b c by auto
qed

text \<open>The defaults on 35 and on 34 closes.\<close>

theorem calculateMACD_insufficient_iff_witness:
  "(12::nat) \<le> 26 + 9
   \<and> (\<exists>r. calculateMACD (replicate 35 1) 12 26 9 = Inr r)
   \<and> calculateMACD (replicate 34 1) 12 26 9 = Inl InsufficientData"
  using calculateMACD_insufficient_iff[of "replicate 35 1" 12 26 9]
        calculateMACD_insufficient_iff[of "replicate 34 1" 12 26 9]
  by simp

text \<open>
  C4 as stated fails when \<open>fast\<close> exceeds the number of closes: 35 closes with
  (fast, slow, signal) = (40, 26, 9) are not fewer than \<open>slow + signal\<close>, and the call raises.
\<close>

theorem calculateMACD_fast_counterexample:
  "\<not> length (replicate 35 (1::real)) < 26 + 9
    \<and> calculateMACD (replicate 35 1) 40 26 9 = Inl InsufficientData"
  by (simp add: calculateMACD_def calculateEMA_def)

text \<open>
  C5. For a period of at least 1 and at least \<open>period\<close> values, \<open>calculateEMA\<close> and
  \<open>calculateSMA\<close> both return a non-empty sequence and their first elements are equal:
  both are the mean of the first \<open>period\<close> values.
\<close>

theorem calculateEMA_seed_is_SMA:
  assumes "0 < period" and "period \<le> length vs"
  shows "\<exists>es ss. calculateEMA vs period = Inr es \<and> calculateSMA vs period = Inr ss
           \<and> es \<noteq> [] \<and> ss \<noteq> [] \<and> hd es = hd ss
           \<and> hd es = sum_list (take period vs) / real period"
proof -
  obtain es where es: "calculateEMA vs period = Inr es" "length es = length vs - period + 1"
      "hd es = sum_list (take period vs) / real period"
    using calculateEMA_ok[OF assms] by blast
  obtain ss where ss: "calculateSMA vs period = Inr ss" "length ss = length vs - period + 1"
      "hd ss = sum_list (take period vs) / real period"
    using calculateSMA_ok[OF assms] by blast
  have "es \<noteq> []" "ss \<noteq> []" using es(2) ss(2) by auto
  then show ?thesis using es ss by simp
qed

text \<open>The statement at period 2 on the values 1, 2, 3, 4.\<close>

theorem calculateEMA_seed_is_SMA_witness:
  "(0::nat) < 2 \<and> 2 \<le> length [1, 2, 3, 4::real]
   \<and> calculateEMA [1, 2, 3, 4] 2 = Inr [3 / 2, 5 / 2, 7 / 2]
   \<and> calculateSMA [1, 2, 3, 4] 2 = Inr [3 / 2, 5 / 2, 7 / 2]
   \<and> (\<exists>es ss. calculateEMA [1, 2, 3, 4] 2 = Inr es \<and> calculateSMA [1, 2, 3, 4] 2 = Inr ss
           \<and> es \<noteq> [] \<and> ss \<noteq> [] \<and> hd es = hd ss)"
  using calculateEMA_seed_is_SMA[of 2 "[1, 2, 3, 4]"]
  by (simp add: calculateEMA_def calculateSMA_def reduce_add_def slice_def Let_def upt_rec)

text \<open>
  C6 (as amended). For at least \<open>period\<close> prices, \<open>calculateBollingerBands\<close> with
  multiplier 2 returns three sequences of the same length, and at every index \<open>i\<close>: the
  middle band is the computed mean of the window that starts at \<open>i\<close>; the upper and lower
  bands are the middle band plus and minus twice the square root of the population
  variance computed from that mean (the sum of the squared deviations divided by
  \<open>period\<close>); \<open>middle \<le> upper\<close> unless the upper band is \<open>NaN\<close>, and \<open>lower \<le> middle\<close>
  unless the lower band is \<open>NaN\<close>; and the three bands are equal when the computed
  variance is zero. The values are those of the double-precision model.
\<close>

theorem calculateBollingerBands_ieee_order:
  assumes "period \<le> length prices"
  shows "\<exists>bb. calculateBollingerBands_ieee prices period (Num 2) = Inr bb
          \<and> length (middle bb) = length prices - period + 1
          \<and> length (upper bb) = length prices - period + 1
          \<and> length (lower bb) = length prices - period + 1
          \<and> (\<forall>i < length prices - period + 1.
                middle bb ! i = mean_ieee (window_ieee prices period i)
              \<and> upper bb ! i = fadd (middle bb ! i) (fmul (Num 2) (fsqrt
                    (population_variance_ieee (window_ieee prices period i) (middle bb ! i))))
              \<and> lower bb ! i = fsub (middle bb ! i) (fmul (Num 2) (fsqrt
                    (population_variance_ieee (window_ieee prices period i) (middle bb ! i))))
              \<and> (upper bb ! i = Nan \<or> fle (middle bb ! i) (upper bb ! i))
              \<and> (lower bb ! i = Nan \<or> fle (lower bb ! i) (middle bb ! i))
              \<and> (population_variance_ieee (window_ieee prices period i) (middle bb ! i) = Num 0
                   \<longrightarrow> lower bb ! i = middle bb ! i \<and> upper bb ! i = middle bb ! i))"
  using assms by (rule calculateBollingerBands_ieee_props)

text \<open>
  The statement at period 2 on the prices 1, 3, 3: one window of computed variance 1 and
  one of computed variance 0.
\<close>

theorem calculateBollingerBands_ieee_order_witness:
  "2 \<le> length [Num 1, Num 3, Num 3]
   \<and> calculateBollingerBands_ieee [Num 1, Num 3, Num 3] 2 (Num 2)
       = Inr \<lparr>upper = [Num 4, Num 3], middle = [Num 2, Num 3], lower = [Num 0, Num 3]\<rparr>
   \<and> population_variance_ieee (window_ieee [Num 1, Num 3, Num 3] 2 0) (Num 2) = Num 1
   \<and> population_variance_ieee (window_ieee [Num 1, Num 3, Num 3] 2 1) (Num 3) = Num 0"
proof -
  have f1: "fl 1 = Num 1"
    using fl_fraction[of 1 0] by simp
  have f2: "fl 4 = Num 4"
    using fl_fraction[of 4 0] by simp
  have f3: "fl 2 = Num 2"
    using fl_fraction[of 2 0] by simp
  have f4: "fl 3 = Num 3"
    using fl_fraction[of 3 0] by simp
  have f5: "fl 6 = Num 6"
    using fl_fraction[of 6 0] by simp
  show ?thesis
    using calculateBollingerBands_ieee_order[of 2 "[Num 1, Num 3, Num 3]"]
    by (simp add: calculateBollingerBands_ieee_def calculateSMA_ieee_def band_at_ieee_def
          reduce_fadd_def slice_def fsub_def Let_def upt_rec upto_rec1 fl_0 fl_minus
          population_variance_ieee_def window_ieee_def
          f1 f2 f3 f4 f5)
qed

text \<open>
  C6 as stated fails on a window of equal prices, whose variance is zero: on three times
  the double nearest to 0.1 with period 3 the computed mean is one spacing above the
  price, the computed variance is not zero, and the three bands are three different
  doubles, \<open>lower < middle < upper\<close>.
\<close>

theorem calculateBollingerBands_ieee_constant_window_counterexample:
  "calculateBollingerBands_ieee
       [Num (3602879701896397 / 36028797018963968),
        Num (3602879701896397 / 36028797018963968),
        Num (3602879701896397 / 36028797018963968)] 3 (Num 2)
     = Inr \<lparr>upper = [Num (7205759403792797 / 72057594037927936)],
            middle = [Num (7205759403792795 / 72057594037927936)],
            lower = [Num (7205759403792793 / 72057594037927936)]\<rparr>
   \<and> flt (Num (7205759403792793 / 72057594037927936)) (Num (7205759403792795 / 72057594037927936))
   \<and> flt (Num (7205759403792795 / 72057594037927936)) (Num (7205759403792797 / 72057594037927936))"
proof -
  have f1: "fl (3602879701896397 / 36028797018963968) = Num (3602879701896397 / 36028797018963968)"
    using fl_fraction[of 3602879701896397 55] by simp
  have f2: "fl (3602879701896397 / 18014398509481984) = Num (3602879701896397 / 18014398509481984)"
    using fl_fraction[of 3602879701896397 54] by simp
  have f3: "fl (10808639105689191 / 36028797018963968) = Num (1351079888211149 / 4503599627370496)"
    by (subst fl_when[of "-2" _ "1 / 18014398509481984" "1351079888211149 / 4503599627370496"])
       (simp_all add: round_half_even_def two_powr_neg_numeral two_powr_neg_one)
  have f4: "fl (1351079888211149 / 13510798882111488) = Num (7205759403792795 / 72057594037927936)"
    by (subst fl_when[of "-4" _ "1 / 72057594037927936" "7205759403792795 / 72057594037927936"])
       (simp_all add: round_half_even_def two_powr_neg_numeral two_powr_neg_one)
  have f5: "fl (1 / 72057594037927936) = Num (1 / 72057594037927936)"
    using fl_fraction[of 1 56] by simp
  have f6: "fl (1 / 5192296858534827628530496329220096) = Num (1 / 5192296858534827628530496329220096)"
    using fl_fraction[of 1 112] by simp
  have f7: "fl (1 / 2596148429267413814265248164610048) = Num (1 / 2596148429267413814265248164610048)"
    using fl_fraction[of 1 111] by simp
  have f8: "fl (3 / 5192296858534827628530496329220096) = Num (3 / 5192296858534827628530496329220096)"
    using fl_fraction[of 3 112] by simp
  have f9: "fl (1 / 36028797018963968) = Num (1 / 36028797018963968)"
    using fl_fraction[of 1 55] by simp
  have f10: "fl (7205759403792797 / 72057594037927936) = Num (7205759403792797 / 72057594037927936)"
    using fl_fraction[of 7205759403792797 56] by simp
  have f11: "fl (7205759403792793 / 72057594037927936) = Num (7205759403792793 / 72057594037927936)"
    using fl_fraction[of 7205759403792793 56] by simp
  have f12: "sqrt (1 / 5192296858534827628530496329220096) = 1 / 72057594037927936"
    by (rule real_sqrt_unique) (simp_all add: power2_eq_square)
  show ?thesis
    by (simp add: calculateBollingerBands_ieee_def calculateSMA_ieee_def band_at_ieee_def
          reduce_fadd_def slice_def fsub_def Let_def upt_rec upto_rec1 fl_0 fl_minus
          f1 f2 f3 f4 f5 f6 f7 f8 f9 f10 f11 f12)
qed

text \<open>
  C9. \<open>getLatestIndicators\<close> raises \<open>InsufficientData\<close> exactly when there are fewer than
  50 closes, and returns a snapshot exactly when there are at least 50.
\<close>

theorem getLatestIndicators_needs_50:
  "(getLatestIndicators closes highs lows = Inl InsufficientData \<longleftrightarrow> length closes < 50)
   \<and> ((\<exists>s. getLatestIndicators closes highs lows = Inr s) \<longleftrightarrow> 50 \<le> length closes)"
proof (cases "length closes < 50")
  case True
  then show ?thesis using getLatestIndicators_raises[OF True, of highs lows] by simp
next
  case False
  then obtain s where "getLatestIndicators closes highs lows = Inr s"
    using getLatestIndicators_succeeds[of closes highs lows] by auto
  then show ?thesis using False by simp
qed

text \<open>The statement on 50 and on 49 closes.\<close>

theorem getLatestIndicators_needs_50_witness:
  "(\<exists>s. getLatestIndicators (replicate 50 1) [] [] = Inr s)
   \<and> getLatestIndicators (replicate 49 1) [] [] = Inl InsufficientData"
  using getLatestIndicators_needs_50[of "replicate 50 1" "[]" "[]"]
        getLatestIndicators_needs_50[of "replicate 49 1" "[]" "[]"]
  by simp

text \<open>
  C10. The outcome of \<open>getLatestIndicators\<close> is the same for any two choices of the
  \<open>highs\<close> and \<open>lows\<close> arguments: it depends on the closes only.
\<close>

theorem getLatestIndicators_ignores_highs_lows:
  "getLatestIndicators closes highs lows = getLatestIndicators closes highs' lows'"
  by (simp add: getLatestIndicators_def)

section \<open>Filter predicate and scorer: claims\<close>

text \<open>Every bonus of the scorer is non-negative: the value before the clamp is never below 50.\<close>

lemma raw_score_at_least_50: "50 \<le> raw_score ind"
  by (simp add: raw_score_def Let_def)

text \<open>
  C2. For every snapshot (any real RSI, any cross flags, any bands and price, bands of
  zero width included) \<open>calculateScore\<close> returns a value in \<open>[0, 100]\<close>.
\<close>

theorem calculateScore_in_range:
  "0 \<le> calculateScore ind \<and> calculateScore ind \<le> 100"
  by (simp add: calculateScore_def)

text \<open>
  A snapshot whose bonuses add up to 120 before the clamp (oversold RSI, both crosses,
  price near the lower band): the score returned is 100.
\<close>

theorem calculateScore_in_range_witness:
  "raw_score \<lparr>rsi = 0, macd = \<lparr>macd_value = 0, macd_signal = 0, macd_histogram_latest = 0\<rparr>,
              ma20 = 1, ma50 = 1, bollinger = \<lparr>upper = 10, middle = 5, lower = 0\<rparr>,
              price = 1 / 2,
              crosses = \<lparr>goldenCross = True, deathCross = False,
                         macdBullish = True, macdBearish = False\<rparr>\<rparr> = 120
   \<and> calculateScore \<lparr>rsi = 0, macd = \<lparr>macd_value = 0, macd_signal = 0, macd_histogram_latest = 0\<rparr>,
              ma20 = 1, ma50 = 1, bollinger = \<lparr>upper = 10, middle = 5, lower = 0\<rparr>,
              price = 1 / 2,
              crosses = \<lparr>goldenCross = True, deathCross = False,
                         macdBullish = True, macdBearish = False\<rparr>\<rparr> = 100"
  using calculateScore_in_range[of "\<lparr>rsi = 0, macd = \<lparr>macd_value = 0, macd_signal = 0, macd_histogram_latest = 0\<rparr>,
              ma20 = 1, ma50 = 1, bollinger = \<lparr>upper = 10, middle = 5, lower = 0\<rparr>,
              price = 1 / 2,
              crosses = \<lparr>goldenCross = True, deathCross = False,
                         macdBullish = True, macdBearish = False\<rparr>\<rparr>"]
  by (simp add: calculateScore_def raw_score_def js_div_def Let_def)


section \<open>Retrieval orchestrator: facts and claims\<close>




lemma batch_delays_append: "batch_delays (xs @ ys) = batch_delays xs + batch_delays ys"
  by (simp add: batch_delays_def)

lemma attempted_append: "attempted (xs @ ys) = attempted xs @ attempted ys"
  by (simp add: attempted_def map_filter_def)












lemma fetchKlinesBatch_uses_20: "fetchKlinesBatch = fetchKlinesBatch_sized 20"
  by (simp add: fetchKlinesBatch_def BATCH_SIZE_def)



section \<open>Screening pipeline: facts and claims\<close>

lemma analyze_loop_scanned:
  "snd (analyze_loop c km (rs, n)) = n + length km"
  by (induction c km "(rs, n)" arbitrary: rs n rule: analyze_loop.induct)
     (auto simp: Let_def split: sum.splits)

lemma analyze_loop_found:
  "length (fst (analyze_loop c km (rs, n))) = length rs + length (filter (entry_matches c) km)"
  by (induction c km "(rs, n)" arbitrary: rs n rule: analyze_loop.induct)
     (auto simp: Let_def entry_matches_def reaches_analysis_def parseKlines_def split: sum.splits)

lemma entry_matches_no_criteria: "entry_matches None entry \<longleftrightarrow> reaches_analysis entry"
proof (cases "reaches_analysis entry")
  case False
  then show ?thesis by (simp add: entry_matches_def)
next
  case True
  then have "50 \<le> length (map k_close (snd entry))" by (simp add: reaches_analysis_def)
  then obtain s where "getLatestIndicators (map k_close (snd entry)) (map k_high (snd entry))
      (map k_low (snd entry)) = Inr s"
    using getLatestIndicators_succeeds by blast
  then show ?thesis using True by (simp add: entry_matches_def matchesFilters_def)
qed

text \<open>
  C3 (as amended). In the report built from a fetched map, \<open>totalScanned\<close> is the number
  of entries of the map (every fetched series, also one that is skipped for having fewer
  than 100 candles), \<open>matchedCount\<close> is the number of entries that reach the analysis and
  match the criteria, counted before the truncation, and the result list has
  \<open>min maxResults matchedCount\<close> entries when \<open>maxResults\<close> is positive and
  \<open>matchedCount\<close> entries otherwise.
\<close>

theorem report_counts:
  "totalScanned (build_report args c now km) = length km
   \<and> matchedCount (build_report args c now km) = length (filter (entry_matches c) km)
   \<and> length (results (build_report args c now km))
       = (if maxResults args > 0
          then min (nat (maxResults args)) (matchedCount (build_report args c now km))
          else matchedCount (build_report args c now km))"
proof -
  obtain found scanned where a: "analyze_loop c km ([], 0) = (found, scanned)"
    by (cases "analyze_loop c km ([], 0)")
  have s: "scanned = length km" using analyze_loop_scanned[of c km "[]" 0] a by simp
  have f: "length found = length (filter (entry_matches c) km)"
    using analyze_loop_found[of c km "[]" 0] a by simp
  show ?thesis
    by (simp add: build_report_def a s f sort_by_score_def slice_def Let_def min.commute)
qed

text \<open>
  A map of two series, one of 100 candles and one of 99, without criteria: two are
  scanned and one matches.
\<close>

theorem report_counts_witness:
  "totalScanned (build_report \<lparr>arg_interval = ''4h'', arg_limit = 100, maxResults = 0, topVolume = 0\<rparr>
       None ''now''
       [(''A'', replicate 100 \<lparr>openTime = 0, k_open = 1, k_high = 1, k_low = 1, k_close = 1,
                         k_volume = 1, closeTime = 1\<rparr>),
        (''B'', replicate 99 \<lparr>openTime = 0, k_open = 1, k_high = 1, k_low = 1, k_close = 1,
                         k_volume = 1, closeTime = 1\<rparr>)]) = 2
   \<and> matchedCount (build_report \<lparr>arg_interval = ''4h'', arg_limit = 100, maxResults = 0, topVolume = 0\<rparr>
       None ''now''
       [(''A'', replicate 100 \<lparr>openTime = 0, k_open = 1, k_high = 1, k_low = 1, k_close = 1,
                         k_volume = 1, closeTime = 1\<rparr>),
        (''B'', replicate 99 \<lparr>openTime = 0, k_open = 1, k_high = 1, k_low = 1, k_close = 1,
                         k_volume = 1, closeTime = 1\<rparr>)]) = 1"
  using report_counts[of "\<lparr>arg_interval = ''4h'', arg_limit = 100, maxResults = 0, topVolume = 0\<rparr>"
       None "''now''"
       "[(''A'', replicate 100 \<lparr>openTime = 0, k_open = 1, k_high = 1, k_low = 1, k_close = 1,
                         k_volume = 1, closeTime = 1\<rparr>),
        (''B'', replicate 99 \<lparr>openTime = 0, k_open = 1, k_high = 1, k_low = 1, k_close = 1,
                         k_volume = 1, closeTime = 1\<rparr>)]"]
  by (simp add: entry_matches_no_criteria reaches_analysis_def)

text \<open>
  C3 as stated fails on a fetched series that is too short: a map whose only series has one
  candle gives \<open>totalScanned = 1\<close>, and no series reaches the indicator computation.
\<close>

theorem report_counts_short_series_counterexample:
  "totalScanned (build_report \<lparr>arg_interval = ''4h'', arg_limit = 50, maxResults = 0, topVolume = 0\<rparr>
       None ''now''
       [(''BTCUSDT'', [\<lparr>openTime = 0, k_open = 1, k_high = 1, k_low = 1, k_close = 1,
                         k_volume = 1, closeTime = 1\<rparr>])]) = 1
   \<and> length (filter reaches_analysis
       [(''BTCUSDT'', [\<lparr>openTime = 0, k_open = 1, k_high = 1, k_low = 1, k_close = 1,
                         k_volume = 1, closeTime = 1\<rparr>])]) = 0"
  by (simp add: build_report_def reaches_analysis_def sort_by_score_def Let_def)

end
